theory Spec2Isabelle
  imports Main "HOL-Library.Word"
begin

unbundle bit_operations_syntax

section \<open>LCD-PatternDisplay.asm: data model\<close>

text \<open>
  The program is AVR assembly for the ATmega2560. Registers and memory cells are bytes,
  pointers and the ADC result are 16-bit words. The data segment declared by the file is

  \<^verbatim>\<open>
  BUTTON_IS_PRESSED:      .byte 1
  LAST_BUTTON_PRESSED:    .byte 1
  TOP_LINE_CONTENT:       .byte 16
  CURRENT_CHARSET_INDEX:  .byte 16
  CURRENT_CHAR_INDEX:     .byte 1
  CURRENT_BUTTON_PRESSED: .byte 1
  \<close>

  and the code reaches the two arrays through the pointer registers Y and Z, with no
  bounds check. The data memory is therefore modelled flat, as a function from the byte
  offset (counted from the label \<open>BUTTON_IS_PRESSED\<close>) to the byte stored there; the
  labels are the offsets the assembler gives them. A store \<open>st Y, r\<close> is a function
  update at the offset Y holds.
\<close>

type_synonym byte = "8 word"
type_synonym dseg = "nat \<Rightarrow> byte"

definition BUTTON_IS_PRESSED :: nat where "BUTTON_IS_PRESSED = 0"
definition LAST_BUTTON_PRESSED :: nat where "LAST_BUTTON_PRESSED = 1"
definition TOP_LINE_CONTENT :: nat where "TOP_LINE_CONTENT = 2"
definition CURRENT_CHARSET_INDEX :: nat where "CURRENT_CHARSET_INDEX = 18"
definition CURRENT_CHAR_INDEX :: nat where "CURRENT_CHAR_INDEX = 34"
definition CURRENT_BUTTON_PRESSED :: nat where "CURRENT_BUTTON_PRESSED = 35"

lemmas labels =
  BUTTON_IS_PRESSED_def LAST_BUTTON_PRESSED_def TOP_LINE_CONTENT_def
  CURRENT_CHARSET_INDEX_def CURRENT_CHAR_INDEX_def CURRENT_BUTTON_PRESSED_def

text \<open>The \<open>#define\<close> constants of the file.\<close>

definition BUTTON_RIGHT_ADC :: "16 word" where "BUTTON_RIGHT_ADC = 0x032"
definition BUTTON_UP_ADC :: "16 word" where "BUTTON_UP_ADC = 0x0b0"
definition BUTTON_DOWN_ADC :: "16 word" where "BUTTON_DOWN_ADC = 0x160"
definition BUTTON_LEFT_ADC :: "16 word" where "BUTTON_LEFT_ADC = 0x22b"

definition DASH :: byte where "DASH = 0x2D"
definition ASTERISK :: byte where "ASTERISK = 0x2A"
definition RIGHT :: byte where "RIGHT = 0x52"
definition UP :: byte where "UP = 0x55"
definition DOWN :: byte where "DOWN = 0x44"
definition LEFT :: byte where "LEFT = 0x4C"
definition SPACE :: byte where "SPACE = 0x20"

lemmas chars = DASH_def ASTERISK_def RIGHT_def UP_def DOWN_def LEFT_def SPACE_def

text \<open>
  \<^verbatim>\<open>AVAILABLE_CHARSET: .db "abcdefghijklmnopqrstuvwxyz0123456789!", 0\<close>
  is a table in program memory: 37 characters and the terminating zero byte.
\<close>

definition AVAILABLE_CHARSET :: "byte list" where
  "AVAILABLE_CHARSET = map of_char ''abcdefghijklmnopqrstuvwxyz0123456789!'' @ [0]"

text \<open>
  \<^verbatim>\<open>lpm temp, Z\<close> with Z = \<open>(AVAILABLE_CHARSET<<1) + r18\<close> reads the byte of program
  memory at distance \<open>r18\<close> from the start of the table. Nothing in the file follows the
  table in the code segment, so what lies behind it is a parameter \<open>rest\<close> of the model:
  \<open>rest k\<close> is the byte at distance \<open>k\<close> behind the end of the table.
\<close>

definition lpm :: "(nat \<Rightarrow> byte) \<Rightarrow> byte \<Rightarrow> byte" where
  "lpm rest r18 =
     (if unat r18 < length AVAILABLE_CHARSET then AVAILABLE_CHARSET ! unat r18
      else rest (unat r18 - length AVAILABLE_CHARSET))"

text \<open>The assembler functions \<open>low()\<close> and \<open>high()\<close> on a 16-bit value.\<close>

definition low :: "16 word \<Rightarrow> byte" where
  "low w = ucast w"

definition high :: "16 word \<Rightarrow> byte" where
  "high w = ucast (drop_bit 8 w)"

text \<open>
  The carry flag after \<^verbatim>\<open>cp Rd, Rr\<close> (set when the unsigned value of Rr is larger than
  that of Rd) and after \<^verbatim>\<open>cpc Rd, Rr\<close> with incoming carry \<open>C\<close> (set when Rr plus the
  carry is larger than Rd). \<^verbatim>\<open>brsh\<close> branches when the carry is clear.
\<close>

definition cp :: "byte \<Rightarrow> byte \<Rightarrow> bool" where
  "cp Rd Rr = (unat Rd < unat Rr)"

definition cpc :: "byte \<Rightarrow> byte \<Rightarrow> bool \<Rightarrow> bool" where
  "cpc Rd Rr C = (unat Rd < unat Rr + (if C then 1 else 0))"

section \<open>The button sampler: interrupt handler timer1\<close>

text \<open>
  The handler starts a conversion, polls the converter until it has finished and reads
  the result from ADCL and ADCH. The wait is on the hardware; the model is of a run in
  which the conversion finishes, and takes the 16-bit result \<open>adc\<close> as its input. Each of the four
  comparisons is \<^verbatim>\<open>cp DATAL, BOUNDARY_LOW; cpc DATAH, BOUNDARY_HIGH; brsh skip\<close>; the
  branch falls through (the button is taken) when the carry is set. The last block,
  \<open>skip_left\<close>, stores 0 to \<open>BUTTON_IS_PRESSED\<close> and nothing else.
\<close>

definition timer1 :: "16 word \<Rightarrow> dseg \<Rightarrow> dseg" where
  "timer1 adc m =
     (let DATAL = low adc; DATAH = high adc in
      if cpc DATAH (high BUTTON_RIGHT_ADC) (cp DATAL (low BUTTON_RIGHT_ADC))
      then m(BUTTON_IS_PRESSED := 1, CURRENT_BUTTON_PRESSED := RIGHT)
      else if cpc DATAH (high BUTTON_UP_ADC) (cp DATAL (low BUTTON_UP_ADC))
      then m(BUTTON_IS_PRESSED := 1, CURRENT_BUTTON_PRESSED := UP)
      else if cpc DATAH (high BUTTON_DOWN_ADC) (cp DATAL (low BUTTON_DOWN_ADC))
      then m(BUTTON_IS_PRESSED := 1, CURRENT_BUTTON_PRESSED := DOWN)
      else if cpc DATAH (high BUTTON_LEFT_ADC) (cp DATAL (low BUTTON_LEFT_ADC))
      then m(BUTTON_IS_PRESSED := 1, CURRENT_BUTTON_PRESSED := LEFT)
      else m(BUTTON_IS_PRESSED := 0))"

section \<open>Start-up: initialize_data_space\<close>

text \<open>
  \<open>clear_data_space\<close> gets, on the stack, the fill byte (\<open>r18\<close>), a start address (\<open>Z\<close>)
  and a count (\<open>temp\<close>); its loop compares the 8-bit counter \<open>r17\<close> with the count,
  stores with \<^verbatim>\<open>st Z+, r18\<close> and increments the counter.
\<close>

function loop_clear_data_space :: "byte \<Rightarrow> byte \<Rightarrow> nat \<Rightarrow> byte \<Rightarrow> dseg \<Rightarrow> dseg" where
  "loop_clear_data_space temp r18 Z r17 m =
     (if r17 = temp then m
      else loop_clear_data_space temp r18 (Z + 1) (r17 + 1) (m(Z := r18)))"
  by pat_completeness auto
termination
proof (relation "measure (\<lambda>(temp, r18, Z, r17, m). unat (temp - r17))")
  show "wf (measure (\<lambda>(temp, r18, Z, r17, m). unat (temp - r17)))"
    by simp
next
  fix temp r18 :: byte and Z :: nat and r17 :: byte and m :: dseg
  assume "r17 \<noteq> temp"
  define x where "x = temp - r17"
  from \<open>r17 \<noteq> temp\<close> have "x \<noteq> 0" by (simp add: x_def)
  then have "unat (x - 1) = unat x - 1" and "0 < unat x"
    by (simp_all add: unat_minus_one unat_gt_0)
  then have "unat (x - 1) < unat x" by linarith
  then have "unat (temp - (r17 + 1)) < unat (temp - r17)"
    by (simp only: x_def diff_diff_eq)
  then show "((temp, r18, Z + 1, r17 + 1, m(Z := r18)), (temp, r18, Z, r17, m))
      \<in> measure (\<lambda>(temp, r18, Z, r17, m). unat (temp - r17))"
    by (simp only: in_measure prod.case)
qed

definition clear_data_space :: "byte \<Rightarrow> nat \<Rightarrow> byte \<Rightarrow> dseg \<Rightarrow> dseg" where
  "clear_data_space r18 Z temp m = loop_clear_data_space temp r18 Z 0 m"

definition initialize_data_space :: "dseg \<Rightarrow> dseg" where
  "initialize_data_space m =
     (let m = clear_data_space SPACE TOP_LINE_CONTENT 16 m;
          m = clear_data_space 0 CURRENT_CHARSET_INDEX 16 m
      in m(CURRENT_CHAR_INDEX := 0))"

section \<open>The composition updater: interrupt handler timer4\<close>

text \<open>
  \<open>r17\<close> is \<open>CURRENT_CHAR_INDEX\<close>; Y points at \<open>TOP_LINE_CONTENT + r17\<close> and Z at
  \<open>CURRENT_CHARSET_INDEX + r17\<close> (16-bit additions of the zero-extended byte). The
  handler tests the four button codes in the order U, D, R, L. In the U branch \<open>r19\<close>
  is the cell loaded before the test; the cell is compared with 0 first (exit) and with
  \<open>SPACE\<close> next (\<open>first_up\<close>: the stored index is written back without the increment).
  \<^verbatim>\<open>inc\<close> and \<^verbatim>\<open>dec\<close> are 8-bit and wrap.
\<close>

definition timer4 :: "(nat \<Rightarrow> byte) \<Rightarrow> dseg \<Rightarrow> dseg" where
  "timer4 rest m =
     (if m BUTTON_IS_PRESSED = 0 then m
      else
        let r17 = m CURRENT_CHAR_INDEX;
            Y = TOP_LINE_CONTENT + unat r17;
            Z = CURRENT_CHARSET_INDEX + unat r17;
            r19 = m Y
        in
        if m CURRENT_BUTTON_PRESSED = UP then
          (if m Y = 0 then m
           else
             let r18 = m Z;
                 r18 = (if r19 = SPACE then r18 else r18 + 1);
                 m = m(Z := r18)
             in m(Y := lpm rest r18))
        else if m CURRENT_BUTTON_PRESSED = DOWN then
          (let r18 = m Z in
           if r18 = 0 then m(Y := SPACE)
           else
             let r18 = r18 - 1;
                 m = m(Z := r18)
             in m(Y := lpm rest r18))
        else if m CURRENT_BUTTON_PRESSED = RIGHT then
          (let temp = m CURRENT_CHAR_INDEX in
           if temp = 15 then m else m(CURRENT_CHAR_INDEX := temp + 1))
        else if m CURRENT_BUTTON_PRESSED = LEFT then
          (let temp = m CURRENT_CHAR_INDEX in
           if temp = 0 then m else m(CURRENT_CHAR_INDEX := temp - 1))
        else m)"

section \<open>The foreground: polling loop and LCD output\<close>

text \<open>
  The LCD driver (\<open>lcd.asm\<close>) is an external collaborator. Its two entry points take
  their arguments on the stack, \<open>lcd_gotoxy\<close> the row and then the column, \<open>lcd_putchar\<close>
  the character. The model records the calls in the order they are made; the driver is
  taken to preserve the registers and the stack slots of its callers.
\<close>

datatype lcd_call = Lcd_gotoxy byte byte | Lcd_putchar byte

text \<open>\<open>clear_lcd_row\<close>: the counter \<open>temp\<close> runs from 0 until it equals 16.\<close>

function loop_clear_lcd_row :: "byte \<Rightarrow> byte \<Rightarrow> lcd_call list" where
  "loop_clear_lcd_row r17 temp =
     (if temp = 16 then []
      else [Lcd_gotoxy r17 temp, Lcd_putchar SPACE] @ loop_clear_lcd_row r17 (temp + 1))"
  by pat_completeness auto
termination
proof (relation "measure (\<lambda>(r17, temp). unat (16 - temp))")
  show "wf (measure (\<lambda>(r17, temp). unat (16 - temp)))"
    by simp
next
  fix r17 temp :: byte
  assume "temp \<noteq> 16"
  define x where "x = 16 - temp"
  from \<open>temp \<noteq> 16\<close> have "x \<noteq> 0" by (simp add: x_def)
  then have "unat (x - 1) = unat x - 1" and "0 < unat x"
    by (simp_all add: unat_minus_one unat_gt_0)
  then have "unat (x - 1) < unat x" by linarith
  then have "unat (16 - (temp + 1)) < unat (16 - temp)"
    by (simp only: x_def diff_diff_eq)
  then show "((r17, temp + 1), (r17, temp)) \<in> measure (\<lambda>(r17, temp). unat (16 - temp))"
    by (simp only: in_measure prod.case)
qed

definition clear_lcd_row :: "byte \<Rightarrow> lcd_call list" where
  "clear_lcd_row r17 = loop_clear_lcd_row r17 0"

text \<open>
  \<open>set_char\<close> gets the row and the column on the stack, clears row 1 and writes the
  byte it loads from \<open>CURRENT_BUTTON_PRESSED\<close>.
\<close>

definition set_char :: "byte \<Rightarrow> byte \<Rightarrow> dseg \<Rightarrow> lcd_call list" where
  "set_char temp r17 m =
     clear_lcd_row 1 @ [Lcd_gotoxy temp r17, Lcd_putchar (m CURRENT_BUTTON_PRESSED)]"

definition test_which_button :: "dseg \<Rightarrow> dseg \<times> lcd_call list" where
  "test_which_button m =
     (let r18 = m LAST_BUTTON_PRESSED;
          r19 = m CURRENT_BUTTON_PRESSED
      in
      if r18 = r19 then (m, [])
      else
        let t = (if r19 = RIGHT then set_char 1 3 m
                 else if r19 = UP then set_char 1 2 m
                 else if r19 = DOWN then set_char 1 1 m
                 else if r19 = LEFT then set_char 1 0 m
                 else [])
        in (m(LAST_BUTTON_PRESSED := m CURRENT_BUTTON_PRESSED), t))"

text \<open>
  \<open>set_counter\<close> loads the cell of the top line at \<open>CURRENT_CHAR_INDEX\<close>, returns at
  once when it is the zero byte (\<^verbatim>\<open>cpi r18, 0\<close>), and otherwise writes it at row 0 and
  that column.
\<close>

definition set_counter :: "dseg \<Rightarrow> lcd_call list" where
  "set_counter m =
     (let r17 = m CURRENT_CHAR_INDEX;
          r18 = m (TOP_LINE_CONTENT + unat r17)
      in if r18 = 0 then [] else [Lcd_gotoxy 0 r17, Lcd_putchar r18])"

text \<open>
  \<open>set_button_press\<close> is called with one byte pushed by its caller. It loads that byte
  into \<open>r18\<close>, sets \<open>r18\<close> to 1 or 0 and restores \<open>r18\<close> with \<^verbatim>\<open>pop\<close>; it has no store to
  the stack slot, so the caller pops the byte it pushed. The first component of the
  result is the content of that slot on return.
\<close>

definition set_button_press :: "byte \<Rightarrow> dseg \<Rightarrow> byte \<times> dseg \<times> lcd_call list" where
  "set_button_press slot m =
     (let t = [Lcd_gotoxy 1 15] in
      if m BUTTON_IS_PRESSED = 0 then (slot, m, t @ [Lcd_putchar DASH])
      else
        let (m', t') = test_which_button m
        in (slot, m', t @ [Lcd_putchar ASTERISK] @ t'))"

text \<open>
  One pass through \<open>polling_loop\<close>, from the label to the \<^verbatim>\<open>rjmp\<close> back to it. \<open>TIFR3\<close> is
  the value read from the timer 3 flag register and \<open>OCF3A\<close> the number of the flag bit
  (a constant of the device header, which is not part of the repository). When the bit
  is clear the pass does nothing. Otherwise \<open>temp\<close>, still holding the flag register,
  is pushed for \<open>set_button_press\<close> and popped again, and \<open>set_counter\<close> is skipped when
  the popped byte is zero. The final write to \<open>TIFR3\<close> touches no data memory.
\<close>

definition polling_loop :: "nat \<Rightarrow> byte \<Rightarrow> dseg \<Rightarrow> dseg \<times> lcd_call list" where
  "polling_loop OCF3A TIFR3 m =
     (let temp = TIFR3 in
      if \<not> bit temp OCF3A then (m, [])
      else
        let (temp, m', t) = set_button_press temp m
        in if temp = 0 then (m', t) else (m', t @ set_counter m'))"

section \<open>Runs of the program\<close>

text \<open>
  After start-up the data memory changes in three ways only: timer1 runs with some ADC
  result, timer4 runs, or the foreground makes a pass through the polling loop. An
  interrupt handler runs with interrupts disabled, and the foreground writes nothing
  but \<open>LAST_BUTTON_PRESSED\<close>; a run is modelled as a sequence of such events, each taken
  as a whole, applied to the memory left by \<open>initialize_data_space\<close>. The bytes that
  start-up does not write (\<open>m0\<close>) are arbitrary. Interrupts that arrive before
  \<open>initialize_data_space\<close> has finished, and an interrupt in the middle of a pass of the
  polling loop, are outside this model.
\<close>

datatype event = Timer1 "16 word" | Timer4 | Poll byte

fun step :: "(nat \<Rightarrow> byte) \<Rightarrow> nat \<Rightarrow> event \<Rightarrow> dseg \<Rightarrow> dseg" where
  "step rest OCF3A (Timer1 adc) m = timer1 adc m"
| "step rest OCF3A Timer4 m = timer4 rest m"
| "step rest OCF3A (Poll TIFR3) m = fst (polling_loop OCF3A TIFR3 m)"

definition run :: "(nat \<Rightarrow> byte) \<Rightarrow> nat \<Rightarrow> event list \<Rightarrow> dseg \<Rightarrow> dseg" where
  "run rest OCF3A evs m0 = fold (step rest OCF3A) evs (initialize_data_space m0)"

text \<open>
  Two concrete inputs for closed examples: a data memory of zero bytes before start-up,
  and program memory that reads \<open>0xFF\<close> (erased flash) behind the character table.
\<close>

definition zero_memory :: dseg where
  "zero_memory = (\<lambda>_. 0)"

definition erased_flash :: "nat \<Rightarrow> byte" where
  "erased_flash = (\<lambda>_. 0xFF)"

text \<open>
  The scenario of the specification: start-up, then Up held (ADC result \<open>0x60\<close>) while
  timer4 ticks 37 times.
\<close>

definition up_held_37_ticks :: dseg where
  "up_held_37_ticks = run erased_flash 1 (Timer1 0x60 # replicate 37 Timer4) zero_memory"

text \<open>
  Right pressed (ADC result 0) and then released (ADC result \<open>0x3FF\<close>), right after
  start-up.
\<close>

definition released_after_right :: dseg where
  "released_after_right = run erased_flash 1 [Timer1 0, Timer1 0x3FF] zero_memory"



text \<open>
  The invariant of the composition state used below: the cursor is a column of the
  display, and every column is either blank with index 0 or holds the byte of the
  character table (the terminating zero included) that its index selects.
\<close>

definition composition_inv :: "dseg \<Rightarrow> bool" where
  "composition_inv m \<longleftrightarrow>
     unat (m CURRENT_CHAR_INDEX) \<le> 15 \<and>
     (\<forall>c<16. (m (TOP_LINE_CONTENT + c) = SPACE \<and> m (CURRENT_CHARSET_INDEX + c) = 0) \<or>
             (unat (m (CURRENT_CHARSET_INDEX + c)) < 38 \<and>
              m (TOP_LINE_CONTENT + c) = AVAILABLE_CHARSET ! unat (m (CURRENT_CHARSET_INDEX + c))))"

section \<open>The 16-bit comparison of timer1\<close>

lemma unat_low: "unat (low w) = unat w mod 256"
  by (simp add: low_def unsigned_ucast_eq take_bit_eq_mod)

lemma unat_high: "unat (high w) = unat w div 256"
proof -
  have "unat (drop_bit 8 w) = drop_bit 8 (unat w)"
    by (rule unat_drop_bit_eq)
  also have "\<dots> = unat w div 2 ^ 8"
    by (rule drop_bit_eq_div)
  finally have d: "unat (drop_bit 8 w) = unat w div 256" by simp
  have "unat w < 65536"
    using unsigned_less [of w, where ?'a = nat] by simp
  then have "unat w div 256 < 256" by simp
  then have m: "(unat w div 256) mod 256 = unat w div 256" by simp
  have "unat (high w) = take_bit 8 (unat (drop_bit 8 w))"
    unfolding high_def by (simp only: unsigned_ucast_eq) simp
  also have "\<dots> = unat (drop_bit 8 w) mod 2 ^ 8"
    by (rule take_bit_eq_mod)
  finally show ?thesis using d m by simp
qed

lemma carry_digits:
  fixes q r q' r' :: nat
  assumes "r < 256" and "r' < 256"
  shows "(q < q' + (if r < r' then 1 else 0)) = (256 * q + r < 256 * q' + r')"
  using assms by (cases "r < r'") auto

lemma carry_chain:
  fixes a b :: nat
  shows "(a div 256 < b div 256 + (if a mod 256 < b mod 256 then 1 else 0)) = (a < b)"
proof -
  have "(a div 256 < b div 256 + (if a mod 256 < b mod 256 then 1 else 0))
        = (256 * (a div 256) + a mod 256 < 256 * (b div 256) + b mod 256)"
    by (rule carry_digits) simp_all
  also have "256 * (a div 256) + a mod 256 = a"
    by (rule mult_div_mod_eq)
  also have "256 * (b div 256) + b mod 256 = b"
    by (rule mult_div_mod_eq)
  finally show ?thesis .
qed

lemma cp_cpc_less: "cpc (high v) (high b) (cp (low v) (low b)) = (v < b)"
  unfolding cpc_def cp_def unat_low unat_high word_less_nat_alt
  by (rule carry_chain)

lemma timer1_cascade:
  "timer1 adc m =
     (if adc < BUTTON_RIGHT_ADC then m(BUTTON_IS_PRESSED := 1, CURRENT_BUTTON_PRESSED := RIGHT)
      else if adc < BUTTON_UP_ADC then m(BUTTON_IS_PRESSED := 1, CURRENT_BUTTON_PRESSED := UP)
      else if adc < BUTTON_DOWN_ADC then m(BUTTON_IS_PRESSED := 1, CURRENT_BUTTON_PRESSED := DOWN)
      else if adc < BUTTON_LEFT_ADC then m(BUTTON_IS_PRESSED := 1, CURRENT_BUTTON_PRESSED := LEFT)
      else m(BUTTON_IS_PRESSED := 0))"
  unfolding timer1_def Let_def cp_cpc_less ..

lemma adc_threshold_order:
  fixes v :: "16 word"
  shows "v < 0x032 \<Longrightarrow> v < 0x0b0" and "v < 0x0b0 \<Longrightarrow> v < 0x160" and "v < 0x160 \<Longrightarrow> v < 0x22b"
  by (simp_all add: word_less_nat_alt)

section \<open>Memory after start-up\<close>

lemma loop_clear_data_space_at:
  "loop_clear_data_space temp r18 Z r17 m a =
     (if Z \<le> a \<and> a < Z + unat (temp - r17) then r18 else m a)"
proof (induction temp r18 Z r17 m rule: loop_clear_data_space.induct)
  case (1 temp r18 Z r17 m)
  show ?case
  proof (cases "r17 = temp")
    case True
    then show ?thesis by auto
  next
    case False
    define x where "x = temp - r17"
    from False have "x \<noteq> 0" by (simp add: x_def)
    then have "unat (x - 1) = unat x - 1" and "0 < unat x"
      by (simp_all add: unat_minus_one unat_gt_0)
    then have "unat x = Suc (unat (x - 1))" by linarith
    then have u: "unat (temp - r17) = Suc (unat (temp - (r17 + 1)))"
      by (simp only: x_def diff_diff_eq)
    have "loop_clear_data_space temp r18 Z r17 m a
          = loop_clear_data_space temp r18 (Z + 1) (r17 + 1) (m(Z := r18)) a"
      using False by (subst loop_clear_data_space.simps) simp
    also have "\<dots> = (if Z + 1 \<le> a \<and> a < Z + 1 + unat (temp - (r17 + 1)) then r18
                      else (m(Z := r18)) a)"
      using False by (rule "1.IH")
    also have "\<dots> = (if Z \<le> a \<and> a < Z + unat (temp - r17) then r18 else m a)"
      unfolding u by auto
    finally show ?thesis .
  qed
qed

declare loop_clear_data_space.simps [simp del]

lemma initialize_data_space_at:
  "initialize_data_space m a =
     (if 2 \<le> a \<and> a < 18 then SPACE else if 18 \<le> a \<and> a < 35 then 0 else m a)"
  by (auto simp add: initialize_data_space_def clear_data_space_def Let_def
        loop_clear_data_space_at labels)


section \<open>The character table\<close>

lemma length_AVAILABLE_CHARSET: "length AVAILABLE_CHARSET = 38"
  by (simp add: AVAILABLE_CHARSET_def)

lemma SPACE_notin_AVAILABLE_CHARSET: "SPACE \<notin> set AVAILABLE_CHARSET"
  by (simp add: AVAILABLE_CHARSET_def SPACE_def)

lemma AVAILABLE_CHARSET_not_SPACE: "i < 38 \<Longrightarrow> AVAILABLE_CHARSET ! i \<noteq> SPACE"
proof -
  assume "i < 38"
  then have "AVAILABLE_CHARSET ! i \<in> set AVAILABLE_CHARSET"
    by (simp add: length_AVAILABLE_CHARSET)
  with SPACE_notin_AVAILABLE_CHARSET show ?thesis by metis
qed

lemma AVAILABLE_CHARSET_zero: "i < 38 \<Longrightarrow> (AVAILABLE_CHARSET ! i = 0) = (i = 37)"
proof -
  assume i: "i < 38"
  define cs :: "byte list" where "cs = map of_char ''abcdefghijklmnopqrstuvwxyz0123456789!''"
  have len: "length cs = 37" by (simp add: cs_def)
  have nz: "0 \<notin> set cs" by (simp add: cs_def)
  have tab: "AVAILABLE_CHARSET = cs @ [0]" by (simp add: AVAILABLE_CHARSET_def cs_def)
  show ?thesis
  proof (cases "i < 37")
    case True
    then have "cs ! i \<in> set cs" using len by simp
    with nz have "cs ! i \<noteq> 0" by metis
    with True show ?thesis by (simp add: tab nth_append len)
  next
    case False
    with i have "i = 37" by simp
    then show ?thesis by (simp add: tab nth_append len)
  qed
qed

lemma lpm_table: "unat r18 < 38 \<Longrightarrow> lpm rest r18 = AVAILABLE_CHARSET ! unat r18"
  by (simp add: lpm_def length_AVAILABLE_CHARSET)

lemma AVAILABLE_CHARSET_first: "AVAILABLE_CHARSET ! 0 = of_char CHR ''a''"
  by (simp add: AVAILABLE_CHARSET_def)

lemma AVAILABLE_CHARSET_last: "AVAILABLE_CHARSET ! 36 = of_char CHR ''!''"
  by (simp add: AVAILABLE_CHARSET_def)


section \<open>What one run of timer4 does\<close>

lemma button_codes_distinct:
  "UP \<noteq> DOWN" "UP \<noteq> RIGHT" "UP \<noteq> LEFT" "DOWN \<noteq> RIGHT" "DOWN \<noteq> LEFT" "RIGHT \<noteq> LEFT"
  "DOWN \<noteq> UP" "RIGHT \<noteq> UP" "LEFT \<noteq> UP" "RIGHT \<noteq> DOWN" "LEFT \<noteq> DOWN" "LEFT \<noteq> RIGHT"
  by (simp_all add: chars)

lemma timer4_idle: "m BUTTON_IS_PRESSED = 0 \<Longrightarrow> timer4 rest m = m"
  by (simp add: timer4_def)

lemma timer4_up:
  assumes "m BUTTON_IS_PRESSED \<noteq> 0" and "m CURRENT_BUTTON_PRESSED = UP"
  shows "timer4 rest m =
     (if m (TOP_LINE_CONTENT + unat (m CURRENT_CHAR_INDEX)) = 0 then m
      else if m (TOP_LINE_CONTENT + unat (m CURRENT_CHAR_INDEX)) = SPACE
      then m(CURRENT_CHARSET_INDEX + unat (m CURRENT_CHAR_INDEX) :=
               m (CURRENT_CHARSET_INDEX + unat (m CURRENT_CHAR_INDEX)),
             TOP_LINE_CONTENT + unat (m CURRENT_CHAR_INDEX) :=
               lpm rest (m (CURRENT_CHARSET_INDEX + unat (m CURRENT_CHAR_INDEX))))
      else m(CURRENT_CHARSET_INDEX + unat (m CURRENT_CHAR_INDEX) :=
               m (CURRENT_CHARSET_INDEX + unat (m CURRENT_CHAR_INDEX)) + 1,
             TOP_LINE_CONTENT + unat (m CURRENT_CHAR_INDEX) :=
               lpm rest (m (CURRENT_CHARSET_INDEX + unat (m CURRENT_CHAR_INDEX)) + 1)))"
  using assms by (simp add: timer4_def Let_def)

lemma timer4_down:
  assumes "m BUTTON_IS_PRESSED \<noteq> 0" and "m CURRENT_BUTTON_PRESSED = DOWN"
  shows "timer4 rest m =
     (if m (CURRENT_CHARSET_INDEX + unat (m CURRENT_CHAR_INDEX)) = 0
      then m(TOP_LINE_CONTENT + unat (m CURRENT_CHAR_INDEX) := SPACE)
      else m(CURRENT_CHARSET_INDEX + unat (m CURRENT_CHAR_INDEX) :=
               m (CURRENT_CHARSET_INDEX + unat (m CURRENT_CHAR_INDEX)) - 1,
             TOP_LINE_CONTENT + unat (m CURRENT_CHAR_INDEX) :=
               lpm rest (m (CURRENT_CHARSET_INDEX + unat (m CURRENT_CHAR_INDEX)) - 1)))"
  using assms by (simp add: timer4_def Let_def button_codes_distinct)

lemma timer4_right:
  assumes "m BUTTON_IS_PRESSED \<noteq> 0" and "m CURRENT_BUTTON_PRESSED = RIGHT"
  shows "timer4 rest m =
     (if m CURRENT_CHAR_INDEX = 15 then m
      else m(CURRENT_CHAR_INDEX := m CURRENT_CHAR_INDEX + 1))"
  using assms by (simp add: timer4_def Let_def button_codes_distinct)

lemma timer4_left:
  assumes "m BUTTON_IS_PRESSED \<noteq> 0" and "m CURRENT_BUTTON_PRESSED = LEFT"
  shows "timer4 rest m =
     (if m CURRENT_CHAR_INDEX = 0 then m
      else m(CURRENT_CHAR_INDEX := m CURRENT_CHAR_INDEX - 1))"
  using assms by (simp add: timer4_def Let_def button_codes_distinct)

lemma timer4_other:
  assumes "m CURRENT_BUTTON_PRESSED \<noteq> UP" and "m CURRENT_BUTTON_PRESSED \<noteq> DOWN"
    and "m CURRENT_BUTTON_PRESSED \<noteq> RIGHT" and "m CURRENT_BUTTON_PRESSED \<noteq> LEFT"
  shows "timer4 rest m = m"
  using assms by (simp add: timer4_def Let_def)

section \<open>What one pass of the polling loop does\<close>

lemma test_which_button_mem:
  "fst (test_which_button m) = m(LAST_BUTTON_PRESSED := m CURRENT_BUTTON_PRESSED)"
  by (auto simp add: test_which_button_def Let_def)

lemma polling_loop_mem:
  "fst (polling_loop OCF3A TIFR3 m) =
     (if bit TIFR3 OCF3A \<and> m BUTTON_IS_PRESSED \<noteq> 0
      then m(LAST_BUTTON_PRESSED := m CURRENT_BUTTON_PRESSED) else m)"
  by (auto simp add: polling_loop_def set_button_press_def Let_def test_which_button_mem [symmetric]
      split: prod.splits)

section \<open>The invariant of the composition state\<close>

lemma composition_inv_start: "composition_inv (initialize_data_space m)"
  by (simp add: composition_inv_def initialize_data_space_at labels)

lemma composition_inv_elsewhere:
  assumes "composition_inv m" and "a < 2 \<or> a = 35"
  shows "composition_inv (m(a := v))"
  using assms by (auto simp add: composition_inv_def labels)

lemma composition_inv_cursor:
  assumes "composition_inv m" and "unat k \<le> 15"
  shows "composition_inv (m(CURRENT_CHAR_INDEX := k))"
  using assms by (auto simp add: composition_inv_def labels)

lemma composition_inv_column:
  assumes "composition_inv m" and "c < 16"
    and "(v = SPACE \<and> i = 0) \<or> (unat i < 38 \<and> v = AVAILABLE_CHARSET ! unat i)"
  shows "composition_inv (m(CURRENT_CHARSET_INDEX + c := i, TOP_LINE_CONTENT + c := v))"
  unfolding composition_inv_def
proof (intro conjI allI impI)
  show "unat ((m(CURRENT_CHARSET_INDEX + c := i, TOP_LINE_CONTENT + c := v)) CURRENT_CHAR_INDEX) \<le> 15"
    using assms(1,2) by (simp add: composition_inv_def labels)
next
  fix d :: nat
  assume d: "d < 16"
  let ?m = "m(CURRENT_CHARSET_INDEX + c := i, TOP_LINE_CONTENT + c := v)"
  show "(?m (TOP_LINE_CONTENT + d) = SPACE \<and> ?m (CURRENT_CHARSET_INDEX + d) = 0) \<or>
        (unat (?m (CURRENT_CHARSET_INDEX + d)) < 38 \<and>
         ?m (TOP_LINE_CONTENT + d) = AVAILABLE_CHARSET ! unat (?m (CURRENT_CHARSET_INDEX + d)))"
  proof (cases "d = c")
    case True
    then show ?thesis using assms(2,3) by (simp add: labels)
  next
    case False
    then have "?m (TOP_LINE_CONTENT + d) = m (TOP_LINE_CONTENT + d)"
      and "?m (CURRENT_CHARSET_INDEX + d) = m (CURRENT_CHARSET_INDEX + d)"
      using d assms(2) by (simp_all add: labels)
    then show ?thesis using assms(1) d by (simp add: composition_inv_def)
  qed
qed


lemma composition_inv_timer1:
  assumes "composition_inv m"
  shows "composition_inv (timer1 adc m)"
proof -
  have e: "composition_inv (m(BUTTON_IS_PRESSED := p))" for p
    using assms by (rule composition_inv_elsewhere) (simp add: labels)
  have "composition_inv (m(BUTTON_IS_PRESSED := p, CURRENT_BUTTON_PRESSED := b))" for p b
    using e [of p] by (rule composition_inv_elsewhere) (simp add: labels)
  with e show ?thesis by (simp add: timer1_cascade)
qed

lemma composition_inv_polling_loop:
  assumes "composition_inv m"
  shows "composition_inv (fst (polling_loop OCF3A TIFR3 m))"
proof -
  have "composition_inv (m(LAST_BUTTON_PRESSED := b))" for b
    using assms by (rule composition_inv_elsewhere) (simp add: labels)
  with assms show ?thesis by (simp add: polling_loop_mem)
qed

lemma composition_inv_column_cases:
  assumes "composition_inv m"
  shows "(m (TOP_LINE_CONTENT + unat (m CURRENT_CHAR_INDEX)) = SPACE \<and>
          m (CURRENT_CHARSET_INDEX + unat (m CURRENT_CHAR_INDEX)) = 0) \<or>
         (unat (m (CURRENT_CHARSET_INDEX + unat (m CURRENT_CHAR_INDEX))) < 38 \<and>
          m (TOP_LINE_CONTENT + unat (m CURRENT_CHAR_INDEX)) =
            AVAILABLE_CHARSET ! unat (m (CURRENT_CHARSET_INDEX + unat (m CURRENT_CHAR_INDEX))))"
  using assms by (simp add: composition_inv_def)

lemma unat_succ_byte: "unat (i :: byte) < 255 \<Longrightarrow> unat (i + 1) = unat i + 1"
  by (simp add: unat_word_ariths)

lemma unat_pred_byte: "(i :: byte) \<noteq> 0 \<Longrightarrow> unat (i - 1) = unat i - 1"
  by (simp add: unat_minus_one)

text \<open>In a state that satisfies the invariant the Up branch has three cases.\<close>

lemma timer4_up_inv:
  assumes inv: "composition_inv m"
    and "m BUTTON_IS_PRESSED \<noteq> 0" and "m CURRENT_BUTTON_PRESSED = UP"
  defines "c \<equiv> unat (m CURRENT_CHAR_INDEX)"
  defines "cell \<equiv> m (TOP_LINE_CONTENT + c)" and "idx \<equiv> m (CURRENT_CHARSET_INDEX + c)"
  shows "cell = 0 \<Longrightarrow> unat idx = 37 \<and> timer4 rest m = m"
    and "cell = SPACE \<Longrightarrow> idx = 0 \<and>
           timer4 rest m = m(CURRENT_CHARSET_INDEX + c := 0,
                              TOP_LINE_CONTENT + c := AVAILABLE_CHARSET ! 0)"
    and "cell \<noteq> 0 \<Longrightarrow> cell \<noteq> SPACE \<Longrightarrow> unat idx < 37 \<and>
           timer4 rest m = m(CURRENT_CHARSET_INDEX + c := idx + 1,
                              TOP_LINE_CONTENT + c := AVAILABLE_CHARSET ! (unat idx + 1))"
proof -
  note col = composition_inv_column_cases [OF inv, folded c_def, folded cell_def idx_def]
  note up = timer4_up [OF assms(2,3), of rest, folded c_def, folded cell_def idx_def]
  have S0: "SPACE \<noteq> 0" by (simp add: SPACE_def)
  {
    assume z: "cell = 0"
    with col S0 have "unat idx < 38" and "AVAILABLE_CHARSET ! unat idx = 0" by auto
    then have "unat idx = 37" by (simp add: AVAILABLE_CHARSET_zero)
    with z up show "unat idx = 37 \<and> timer4 rest m = m" by simp
  next
    assume b: "cell = SPACE"
    with col have i0: "idx = 0" using AVAILABLE_CHARSET_not_SPACE [of "unat idx"] by auto
    have "lpm rest 0 = AVAILABLE_CHARSET ! 0" using lpm_table [of 0 rest] by simp
    with b i0 up S0 show "idx = 0 \<and>
           timer4 rest m = m(CURRENT_CHARSET_INDEX + c := 0,
                              TOP_LINE_CONTENT + c := AVAILABLE_CHARSET ! 0)" by simp
  next
    assume nz: "cell \<noteq> 0" and nb: "cell \<noteq> SPACE"
    with col have lt: "unat idx < 38" and tab: "cell = AVAILABLE_CHARSET ! unat idx" by auto
    from nz tab lt have "unat idx \<noteq> 37" by (simp add: AVAILABLE_CHARSET_zero)
    with lt have lt': "unat idx < 37" by simp
    then have u: "unat (idx + 1) = unat idx + 1" by (simp add: unat_succ_byte)
    with lt' have "lpm rest (idx + 1) = AVAILABLE_CHARSET ! (unat idx + 1)"
      using lpm_table [of "idx + 1" rest] by simp
    with nz nb up lt' show "unat idx < 37 \<and>
           timer4 rest m = m(CURRENT_CHARSET_INDEX + c := idx + 1,
                              TOP_LINE_CONTENT + c := AVAILABLE_CHARSET ! (unat idx + 1))" by simp
  }
qed

lemma composition_inv_timer4:
  assumes inv: "composition_inv m"
  shows "composition_inv (timer4 rest m)"
proof -
  define c where "c = unat (m CURRENT_CHAR_INDEX)"
  define cell where "cell = m (TOP_LINE_CONTENT + c)"
  define idx where "idx = m (CURRENT_CHARSET_INDEX + c)"
  have c: "c < 16" using inv by (simp add: composition_inv_def c_def)
  note col = composition_inv_column_cases [OF inv, folded c_def, folded cell_def idx_def]
  consider (idle) "m BUTTON_IS_PRESSED = 0"
    | (up) "m BUTTON_IS_PRESSED \<noteq> 0" "m CURRENT_BUTTON_PRESSED = UP"
    | (down) "m BUTTON_IS_PRESSED \<noteq> 0" "m CURRENT_BUTTON_PRESSED = DOWN"
    | (right) "m BUTTON_IS_PRESSED \<noteq> 0" "m CURRENT_BUTTON_PRESSED = RIGHT"
    | (left) "m BUTTON_IS_PRESSED \<noteq> 0" "m CURRENT_BUTTON_PRESSED = LEFT"
    | (other) "m CURRENT_BUTTON_PRESSED \<noteq> UP" "m CURRENT_BUTTON_PRESSED \<noteq> DOWN"
        "m CURRENT_BUTTON_PRESSED \<noteq> RIGHT" "m CURRENT_BUTTON_PRESSED \<noteq> LEFT"
    by blast
  then show ?thesis
  proof cases
    case idle
    with inv show ?thesis by (simp add: timer4_idle)
  next
    case up
    note u = timer4_up_inv [OF inv up, of rest, folded c_def, folded cell_def idx_def]
    consider "cell = 0" | "cell = SPACE" | "cell \<noteq> 0" "cell \<noteq> SPACE" by blast
    then show ?thesis
    proof cases
      case 1
      with u(1) inv show ?thesis by simp
    next
      case 2
      have "composition_inv (m(CURRENT_CHARSET_INDEX + c := 0,
                              TOP_LINE_CONTENT + c := AVAILABLE_CHARSET ! 0))"
        using inv c by (rule composition_inv_column) simp
      with u(2) 2 show ?thesis by simp
    next
      case 3
      with u(3) have lt: "unat idx < 37" and
        t: "timer4 rest m = m(CURRENT_CHARSET_INDEX + c := idx + 1,
                              TOP_LINE_CONTENT + c := AVAILABLE_CHARSET ! (unat idx + 1))"
        by simp_all
      from lt have "unat (idx + 1) = unat idx + 1" by (simp add: unat_succ_byte)
      with lt have "composition_inv (m(CURRENT_CHARSET_INDEX + c := idx + 1,
                              TOP_LINE_CONTENT + c := AVAILABLE_CHARSET ! (unat idx + 1)))"
        by (intro composition_inv_column [OF inv c]) simp
      with t show ?thesis by simp
    qed
  next
    case down
    note d = timer4_down [OF down, of rest, folded c_def, folded idx_def]
    show ?thesis
    proof (cases "idx = 0")
      case True
      have "composition_inv (m(CURRENT_CHARSET_INDEX + c := 0, TOP_LINE_CONTENT + c := SPACE))"
        using inv c by (rule composition_inv_column) simp
      moreover have "m(CURRENT_CHARSET_INDEX + c := 0) = m"
        using True fun_upd_triv [of m "CURRENT_CHARSET_INDEX + c"] by (simp add: idx_def)
      ultimately show ?thesis using d True by simp
    next
      case False
      with col have lt: "unat idx < 38" by auto
      from False have p: "unat (idx - 1) = unat idx - 1" by (rule unat_pred_byte)
      from False have "0 < unat idx" by (simp add: unat_gt_0)
      with lt p have lt': "unat (idx - 1) < 38" by simp
      then have "lpm rest (idx - 1) = AVAILABLE_CHARSET ! unat (idx - 1)" by (rule lpm_table)
      moreover have "composition_inv (m(CURRENT_CHARSET_INDEX + c := idx - 1,
                        TOP_LINE_CONTENT + c := AVAILABLE_CHARSET ! unat (idx - 1)))"
        using lt' by (intro composition_inv_column [OF inv c]) simp
      ultimately show ?thesis using d False by simp
    qed
  next
    case right
    note r = timer4_right [OF right, of rest]
    show ?thesis
    proof (cases "m CURRENT_CHAR_INDEX = 15")
      case True
      with r inv show ?thesis by simp
    next
      case False
      have "c \<noteq> 15"
      proof
        assume "c = 15"
        then have "word_of_nat (unat (m CURRENT_CHAR_INDEX)) = (word_of_nat 15 :: byte)"
          by (simp add: c_def)
        then have "m CURRENT_CHAR_INDEX = 15" by simp
        with False show False ..
      qed
      with c have "c < 15" by simp
      then have "unat (m CURRENT_CHAR_INDEX + 1) = c + 1"
        unfolding c_def by (simp add: unat_succ_byte)
      with \<open>c < 15\<close> have "composition_inv (m(CURRENT_CHAR_INDEX := m CURRENT_CHAR_INDEX + 1))"
        by (intro composition_inv_cursor [OF inv]) simp
      with r False show ?thesis by simp
    qed
  next
    case left
    note l = timer4_left [OF left, of rest]
    show ?thesis
    proof (cases "m CURRENT_CHAR_INDEX = 0")
      case True
      with l inv show ?thesis by simp
    next
      case False
      then have "unat (m CURRENT_CHAR_INDEX - 1) = c - 1"
        unfolding c_def by (rule unat_pred_byte)
      with c have "composition_inv (m(CURRENT_CHAR_INDEX := m CURRENT_CHAR_INDEX - 1))"
        by (intro composition_inv_cursor [OF inv]) simp
      with l False show ?thesis by simp
    qed
  next
    case other
    with inv show ?thesis by (simp add: timer4_other)
  qed
qed

lemma composition_inv_step:
  "composition_inv m \<Longrightarrow> composition_inv (step rest OCF3A e m)"
  by (cases e) (simp_all add: composition_inv_timer1 composition_inv_timer4
      composition_inv_polling_loop)

lemma composition_inv_fold:
  "composition_inv m \<Longrightarrow> composition_inv (fold (step rest OCF3A) evs m)"
  by (induction evs arbitrary: m) (simp_all add: composition_inv_step)

lemma composition_inv_run: "composition_inv (run rest OCF3A evs m0)"
  unfolding run_def by (rule composition_inv_fold) (rule composition_inv_start)

section \<open>Up held from start-up\<close>

lemma run_snoc: "run rest OCF3A (evs @ [e]) m0 = step rest OCF3A e (run rest OCF3A evs m0)"
  by (simp add: run_def)

lemma up_held:
  "n \<le> 37 \<Longrightarrow>
   run rest OCF3A (Timer1 0x60 # replicate (Suc n) Timer4) m0 =
     (initialize_data_space m0)
       (BUTTON_IS_PRESSED := 1, CURRENT_BUTTON_PRESSED := UP,
        CURRENT_CHARSET_INDEX := of_nat n, TOP_LINE_CONTENT := AVAILABLE_CHARSET ! n)"
proof (induction n)
  case 0
  define s where "s = (initialize_data_space m0)(BUTTON_IS_PRESSED := 1, CURRENT_BUTTON_PRESSED := UP)"
  have t1: "timer1 0x60 (initialize_data_space m0) = s"
    by (simp add: timer1_cascade s_def BUTTON_RIGHT_ADC_def BUTTON_UP_ADC_def)
  have p: "s BUTTON_IS_PRESSED \<noteq> 0" and u: "s CURRENT_BUTTON_PRESSED = UP"
    by (simp_all add: s_def labels)
  have c: "s CURRENT_CHAR_INDEX = 0" by (simp add: s_def initialize_data_space_at labels)
  have cell: "s TOP_LINE_CONTENT = SPACE" and idx: "s CURRENT_CHARSET_INDEX = 0"
    by (simp_all add: s_def initialize_data_space_at labels)
  have "run rest OCF3A (Timer1 0x60 # replicate (Suc 0) Timer4) m0 = timer4 rest s"
    by (simp add: run_def t1)
  also have "\<dots> = s(CURRENT_CHARSET_INDEX := 0, TOP_LINE_CONTENT := AVAILABLE_CHARSET ! 0)"
    using cell idx lpm_table [of 0 rest]
    by (simp add: timer4_up [OF p u] c SPACE_def)
  finally show ?case by (simp only: s_def semiring_1_class.of_nat_0)
next
  case (Suc n)
  then have n: "n < 37" by simp
  define s where "s = (initialize_data_space m0)
       (BUTTON_IS_PRESSED := 1, CURRENT_BUTTON_PRESSED := UP,
        CURRENT_CHARSET_INDEX := of_nat n, TOP_LINE_CONTENT := AVAILABLE_CHARSET ! n)"
  have r: "run rest OCF3A (Timer1 0x60 # replicate (Suc n) Timer4) m0 = s"
    unfolding s_def by (rule Suc.IH) (use n in simp)
  have "Timer1 0x60 # replicate (Suc (Suc n)) Timer4 =
        (Timer1 0x60 # replicate (Suc n) Timer4) @ [Timer4]"
    by (simp add: replicate_append_same)
  then have e: "run rest OCF3A (Timer1 0x60 # replicate (Suc (Suc n)) Timer4) m0 = timer4 rest s"
    by (simp only: run_snoc r step.simps)
  have p: "s BUTTON_IS_PRESSED \<noteq> 0" and u: "s CURRENT_BUTTON_PRESSED = UP"
    by (simp_all add: s_def labels)
  have c: "s CURRENT_CHAR_INDEX = 0" by (simp add: s_def initialize_data_space_at labels)
  have cell: "s TOP_LINE_CONTENT = AVAILABLE_CHARSET ! n"
    and idx: "s CURRENT_CHARSET_INDEX = of_nat n"
    by (simp_all add: s_def labels)
  have nz: "AVAILABLE_CHARSET ! n \<noteq> 0" using n by (simp add: AVAILABLE_CHARSET_zero)
  have nb: "AVAILABLE_CHARSET ! n \<noteq> SPACE" using n by (simp add: AVAILABLE_CHARSET_not_SPACE)
  have j: "(of_nat n + 1 :: byte) = of_nat (Suc n)" by simp
  have "unat (of_nat (Suc n) :: byte) = Suc n mod 2 ^ LENGTH(8)"
    by (rule unat_of_nat)
  also have "\<dots> = Suc n" using n by simp
  finally have uj: "unat (of_nat n + 1 :: byte) = Suc n" by (simp only: j)
  then have "unat (of_nat n + 1 :: byte) < 38" using n by simp
  then have "lpm rest (of_nat n + 1) = AVAILABLE_CHARSET ! unat (of_nat n + 1 :: byte)"
    by (rule lpm_table)
  then have l: "lpm rest (of_nat n + 1) = AVAILABLE_CHARSET ! Suc n"
    by (simp only: uj)
  have "timer4 rest s = s(CURRENT_CHARSET_INDEX := of_nat n + 1,
                          TOP_LINE_CONTENT := AVAILABLE_CHARSET ! Suc n)"
    using cell idx nz nb l by (simp add: timer4_up [OF p u] c)
  with e have "run rest OCF3A (Timer1 0x60 # replicate (Suc (Suc n)) Timer4) m0 =
      s(CURRENT_CHARSET_INDEX := of_nat n + 1, TOP_LINE_CONTENT := AVAILABLE_CHARSET ! Suc n)"
    by (rule trans)
  moreover have "s(CURRENT_CHARSET_INDEX := x, TOP_LINE_CONTENT := y) =
      (initialize_data_space m0)
       (BUTTON_IS_PRESSED := 1, CURRENT_BUTTON_PRESSED := UP,
        CURRENT_CHARSET_INDEX := x, TOP_LINE_CONTENT := y)" for x y
    unfolding s_def by (auto simp add: fun_eq_iff labels)
  moreover have "(of_nat n + 1 :: byte) = of_nat (Suc n)" by simp
  ultimately show ?case by (simp only:)
qed

lemma up_held_37_ticks_eq:
  "up_held_37_ticks =
     (initialize_data_space zero_memory)
       (BUTTON_IS_PRESSED := 1, CURRENT_BUTTON_PRESSED := UP,
        CURRENT_CHARSET_INDEX := 36, TOP_LINE_CONTENT := of_char CHR ''!'')"
proof -
  have "replicate 37 Timer4 = replicate (Suc 36) Timer4" by simp
  then show ?thesis
    unfolding up_held_37_ticks_def
    using up_held [of 36 erased_flash 1 zero_memory]
    by (simp only: AVAILABLE_CHARSET_last) simp
qed

section \<open>What the foreground writes to the display\<close>


lemma set_counter_after_indicator:
  "set_counter (m(LAST_BUTTON_PRESSED := b)) = set_counter m"
  by (simp add: set_counter_def labels)

lemma polling_loop_serviced:
  assumes "bit TIFR3 OCF3A"
  shows "polling_loop OCF3A TIFR3 m =
     (if m BUTTON_IS_PRESSED = 0
      then (m, [Lcd_gotoxy 1 15, Lcd_putchar DASH] @ set_counter m)
      else (fst (test_which_button m),
            [Lcd_gotoxy 1 15, Lcd_putchar ASTERISK] @ snd (test_which_button m) @ set_counter m))"
proof -
  from assms have "TIFR3 \<noteq> 0" by auto
  with assms show ?thesis
    by (simp add: polling_loop_def set_button_press_def Let_def split_beta
        test_which_button_mem set_counter_after_indicator)
qed






section \<open>Claims about the button sampler\<close>

text \<open>
  C3. For every 16-bit ADC result \<open>v\<close>, timer1 decodes by the first threshold, in the
  order Right (\<open>0x032\<close>), Up (\<open>0x0b0\<close>), Down (\<open>0x160\<close>), Left (\<open>0x22b\<close>), that \<open>v\<close> is
  strictly below: it then stores 1 to \<open>BUTTON_IS_PRESSED\<close> and that button's code to
  \<open>CURRENT_BUTTON_PRESSED\<close>. When \<open>v\<close> is below none of them the outcome is "no button":
  0 is stored to \<open>BUTTON_IS_PRESSED\<close>. Exactly one of the five outcomes is taken. The
  byte-wise \<^verbatim>\<open>cp\<close>/\<^verbatim>\<open>cpc\<close>/\<^verbatim>\<open>brsh\<close> sequences of the handler are unsigned 16-bit
  comparisons.
\<close>

theorem button_decoder_thresholds:
  "timer1 v m =
     (if v < 0x032 then m(BUTTON_IS_PRESSED := 1, CURRENT_BUTTON_PRESSED := RIGHT)
      else if v < 0x0b0 then m(BUTTON_IS_PRESSED := 1, CURRENT_BUTTON_PRESSED := UP)
      else if v < 0x160 then m(BUTTON_IS_PRESSED := 1, CURRENT_BUTTON_PRESSED := DOWN)
      else if v < 0x22b then m(BUTTON_IS_PRESSED := 1, CURRENT_BUTTON_PRESSED := LEFT)
      else m(BUTTON_IS_PRESSED := 0))"
  using timer1_cascade [of v m]
  by (simp only: BUTTON_RIGHT_ADC_def BUTTON_UP_ADC_def BUTTON_DOWN_ADC_def BUTTON_LEFT_ADC_def)

text \<open>
  C2 as stated fails. After Right is pressed and released, \<open>BUTTON_IS_PRESSED\<close> is 0
  and \<open>CURRENT_BUTTON_PRESSED\<close> is still the code of Right.
\<close>

theorem sampler_keeps_button_counterexample:
  "released_after_right BUTTON_IS_PRESSED = 0 \<and>
   released_after_right CURRENT_BUTTON_PRESSED = RIGHT"
  by (intro conjI; code_simp)

text \<open>
  C2 (as amended). The specification's invariant "not pressed implies no current button"
  does not hold: the block \<open>skip_left\<close> stores 0 to \<open>BUTTON_IS_PRESSED\<close> and leaves
  \<open>CURRENT_BUTTON_PRESSED\<close> alone, and the program has no code for "no button". What
  holds after every run of timer1, from any memory and for any ADC result: when the
  result is below the Left threshold, the memory is the old one with 1 in
  \<open>BUTTON_IS_PRESSED\<close> and the code of the decoded button (the first threshold in the
  order Right, Up, Down, Left that the result is below) in \<open>CURRENT_BUTTON_PRESSED\<close>;
  otherwise the memory is the old one with 0 in \<open>BUTTON_IS_PRESSED\<close> and nothing else
  written. So the flag is 1 exactly when the result is below the Left threshold; when
  the flag is nonzero the current button is the decoded button, one of the four button
  codes; when the flag is zero the current button is the byte that was there before
  the run.
\<close>

theorem sampler_publishes:
  "let m' = timer1 adc m;
       button = (if adc < 0x032 then RIGHT else if adc < 0x0b0 then UP
                 else if adc < 0x160 then DOWN else LEFT) in
     (adc < 0x22b \<longrightarrow> m' = m(BUTTON_IS_PRESSED := 1, CURRENT_BUTTON_PRESSED := button)) \<and>
     (\<not> adc < 0x22b \<longrightarrow> m' = m(BUTTON_IS_PRESSED := 0)) \<and>
     m' BUTTON_IS_PRESSED = (if adc < 0x22b then 1 else 0) \<and>
     (m' BUTTON_IS_PRESSED \<noteq> 0 \<longrightarrow>
        m' CURRENT_BUTTON_PRESSED = button \<and> button \<in> {RIGHT, UP, DOWN, LEFT}) \<and>
     (m' BUTTON_IS_PRESSED = 0 \<longrightarrow> m' CURRENT_BUTTON_PRESSED = m CURRENT_BUTTON_PRESSED)"
  unfolding Let_def
  using adc_threshold_order [of adc]
  by (cases "adc < 0x032"; cases "adc < 0x0b0"; cases "adc < 0x160"; cases "adc < 0x22b")
     (simp_all add: timer1_cascade BUTTON_RIGHT_ADC_def BUTTON_UP_ADC_def BUTTON_DOWN_ADC_def
        BUTTON_LEFT_ADC_def labels)

theorem sampler_publishes_witness:
  "timer1 0x60 zero_memory = zero_memory(BUTTON_IS_PRESSED := 1, CURRENT_BUTTON_PRESSED := UP) \<and>
   timer1 0x60 zero_memory BUTTON_IS_PRESSED = 1 \<and>
   timer1 0x60 zero_memory CURRENT_BUTTON_PRESSED \<in> {RIGHT, UP, DOWN, LEFT} \<and>
   timer1 0x3FF (timer1 0 zero_memory) = (timer1 0 zero_memory)(BUTTON_IS_PRESSED := 0) \<and>
   timer1 0x3FF (timer1 0 zero_memory) BUTTON_IS_PRESSED = 0 \<and>
   timer1 0x3FF (timer1 0 zero_memory) CURRENT_BUTTON_PRESSED =
     timer1 0 zero_memory CURRENT_BUTTON_PRESSED"
  using sampler_publishes [of "0x60" zero_memory]
    sampler_publishes [of "0x3FF" "timer1 0 zero_memory"]
  by (simp add: Let_def labels)

section \<open>Claims about the composition updater\<close>

text \<open>
  C9. In every state reached by a run from start-up, a column of the top line that
  holds the blank has index 0. Hence the \<open>first_up\<close> path of timer4, which writes the
  stored index back unchanged, leaves the index 0 and selects the first character of
  the table when Up is pressed on a blank cell.
\<close>

theorem blank_cell_has_index_zero:
  "let m = run rest OCF3A evs m0 in
     (\<forall>c<16. m (TOP_LINE_CONTENT + c) = SPACE \<longrightarrow> m (CURRENT_CHARSET_INDEX + c) = 0) \<and>
     (m BUTTON_IS_PRESSED \<noteq> 0 \<and> m CURRENT_BUTTON_PRESSED = UP \<and>
      m (TOP_LINE_CONTENT + unat (m CURRENT_CHAR_INDEX)) = SPACE \<longrightarrow>
        timer4 rest m (CURRENT_CHARSET_INDEX + unat (m CURRENT_CHAR_INDEX)) = 0 \<and>
        timer4 rest m (TOP_LINE_CONTENT + unat (m CURRENT_CHAR_INDEX)) = AVAILABLE_CHARSET ! 0)"
proof -
  define m where "m = run rest OCF3A evs m0"
  have inv: "composition_inv m" unfolding m_def by (rule composition_inv_run)
  have 1: "m (CURRENT_CHARSET_INDEX + c) = 0"
    if "c < 16" and "m (TOP_LINE_CONTENT + c) = SPACE" for c
    using inv that AVAILABLE_CHARSET_not_SPACE [of "unat (m (CURRENT_CHARSET_INDEX + c))"]
    by (auto simp add: composition_inv_def)
  have 2: "timer4 rest m (CURRENT_CHARSET_INDEX + unat (m CURRENT_CHAR_INDEX)) = 0 \<and>
        timer4 rest m (TOP_LINE_CONTENT + unat (m CURRENT_CHAR_INDEX)) = AVAILABLE_CHARSET ! 0"
    if p: "m BUTTON_IS_PRESSED \<noteq> 0" and u: "m CURRENT_BUTTON_PRESSED = UP"
      and b: "m (TOP_LINE_CONTENT + unat (m CURRENT_CHAR_INDEX)) = SPACE"
  proof -
    have t: "timer4 rest m = m(CURRENT_CHARSET_INDEX + unat (m CURRENT_CHAR_INDEX) := 0,
             TOP_LINE_CONTENT + unat (m CURRENT_CHAR_INDEX) := AVAILABLE_CHARSET ! 0)"
      using timer4_up_inv(2) [OF inv p u b, of rest] by simp
    show ?thesis by (simp add: t labels)
  qed
  from 1 2 show ?thesis unfolding Let_def m_def by blast
qed


theorem blank_cell_has_index_zero_witness:
  "run erased_flash 1 [Timer1 0x60, Timer4, Timer1 0x100, Timer4, Timer1 0x60] zero_memory
     (CURRENT_CHARSET_INDEX + 0) = 0 \<and>
   timer4 erased_flash
     (run erased_flash 1 [Timer1 0x60, Timer4, Timer1 0x100, Timer4, Timer1 0x60] zero_memory)
     (TOP_LINE_CONTENT + 0) = of_char CHR ''a''"
proof -
  define m where
    "m = run erased_flash 1 [Timer1 0x60, Timer4, Timer1 0x100, Timer4, Timer1 0x60] zero_memory"
  have h: "m (TOP_LINE_CONTENT + 0) = SPACE" "m BUTTON_IS_PRESSED \<noteq> 0"
    "m CURRENT_BUTTON_PRESSED = UP" "unat (m CURRENT_CHAR_INDEX) = 0"
    unfolding m_def by code_simp+
  note t = blank_cell_has_index_zero [of erased_flash 1
      "[Timer1 0x60, Timer4, Timer1 0x100, Timer4, Timer1 0x60]" zero_memory,
      folded m_def, unfolded Let_def]
  from t h have "m (CURRENT_CHARSET_INDEX + 0) = 0" by force
  moreover from t h have "timer4 erased_flash m (TOP_LINE_CONTENT + 0) = of_char CHR ''a''"
    by (simp add: AVAILABLE_CHARSET_first)
  ultimately show ?thesis unfolding m_def by blast
qed

text \<open>
  C5. A timer4 tick with Right pressed leaves the memory unchanged when the cursor is
  15 and otherwise adds one to the cursor; with Left pressed it leaves the memory
  unchanged when the cursor is 0 and otherwise subtracts one; neither addition wraps.
  Every timer4 tick, whatever the button, keeps a cursor that is at most 15 at most 15.
  Start-up sets the cursor to 0, and the cursor is at most 15 in every state reached by
  a run.
\<close>

theorem cursor_clamps:
  "(m BUTTON_IS_PRESSED \<noteq> 0 \<and> m CURRENT_BUTTON_PRESSED = RIGHT \<longrightarrow>
      timer4 rest m =
        (if m CURRENT_CHAR_INDEX = 15 then m
         else m(CURRENT_CHAR_INDEX := m CURRENT_CHAR_INDEX + 1))) \<and>
   (m BUTTON_IS_PRESSED \<noteq> 0 \<and> m CURRENT_BUTTON_PRESSED = LEFT \<longrightarrow>
      timer4 rest m =
        (if m CURRENT_CHAR_INDEX = 0 then m
         else m(CURRENT_CHAR_INDEX := m CURRENT_CHAR_INDEX - 1))) \<and>
   (unat (m CURRENT_CHAR_INDEX) < 15 \<longrightarrow>
      unat (m CURRENT_CHAR_INDEX + 1) = unat (m CURRENT_CHAR_INDEX) + 1) \<and>
   (m CURRENT_CHAR_INDEX \<noteq> 0 \<longrightarrow>
      unat (m CURRENT_CHAR_INDEX - 1) = unat (m CURRENT_CHAR_INDEX) - 1) \<and>
   (unat (m CURRENT_CHAR_INDEX) \<le> 15 \<longrightarrow> unat (timer4 rest m CURRENT_CHAR_INDEX) \<le> 15) \<and>
   initialize_data_space m0 CURRENT_CHAR_INDEX = 0 \<and>
   unat (run rest OCF3A evs m0 CURRENT_CHAR_INDEX) \<le> 15"
proof (intro conjI impI)
  assume "m BUTTON_IS_PRESSED \<noteq> 0 \<and> m CURRENT_BUTTON_PRESSED = RIGHT"
  then show "timer4 rest m =
        (if m CURRENT_CHAR_INDEX = 15 then m
         else m(CURRENT_CHAR_INDEX := m CURRENT_CHAR_INDEX + 1))"
    by (simp add: timer4_right)
next
  assume "m BUTTON_IS_PRESSED \<noteq> 0 \<and> m CURRENT_BUTTON_PRESSED = LEFT"
  then show "timer4 rest m =
        (if m CURRENT_CHAR_INDEX = 0 then m
         else m(CURRENT_CHAR_INDEX := m CURRENT_CHAR_INDEX - 1))"
    by (simp add: timer4_left)
next
  assume "unat (m CURRENT_CHAR_INDEX) < 15"
  then show "unat (m CURRENT_CHAR_INDEX + 1) = unat (m CURRENT_CHAR_INDEX) + 1"
    by (simp add: unat_succ_byte)
next
  assume "m CURRENT_CHAR_INDEX \<noteq> 0"
  then show "unat (m CURRENT_CHAR_INDEX - 1) = unat (m CURRENT_CHAR_INDEX) - 1"
    by (rule unat_pred_byte)
next
  assume c: "unat (m CURRENT_CHAR_INDEX) \<le> 15"
  consider (idle) "m BUTTON_IS_PRESSED = 0"
    | (up) "m BUTTON_IS_PRESSED \<noteq> 0" "m CURRENT_BUTTON_PRESSED = UP"
    | (down) "m BUTTON_IS_PRESSED \<noteq> 0" "m CURRENT_BUTTON_PRESSED = DOWN"
    | (right) "m BUTTON_IS_PRESSED \<noteq> 0" "m CURRENT_BUTTON_PRESSED = RIGHT"
    | (left) "m BUTTON_IS_PRESSED \<noteq> 0" "m CURRENT_BUTTON_PRESSED = LEFT"
    | (other) "m CURRENT_BUTTON_PRESSED \<noteq> UP" "m CURRENT_BUTTON_PRESSED \<noteq> DOWN"
        "m CURRENT_BUTTON_PRESSED \<noteq> RIGHT" "m CURRENT_BUTTON_PRESSED \<noteq> LEFT"
    by blast
  then show "unat (timer4 rest m CURRENT_CHAR_INDEX) \<le> 15"
  proof cases
    case idle
    with c show ?thesis by (simp add: timer4_idle)
  next
    case up
    from c show ?thesis by (simp add: timer4_up [OF up] labels)
  next
    case down
    from c show ?thesis by (simp add: timer4_down [OF down] labels)
  next
    case right
    show ?thesis
    proof (cases "m CURRENT_CHAR_INDEX = 15")
      case True
      then show ?thesis by (simp add: timer4_right [OF right])
    next
      case False
      have "unat (m CURRENT_CHAR_INDEX) \<noteq> 15"
      proof
        assume "unat (m CURRENT_CHAR_INDEX) = 15"
        then have "word_of_nat (unat (m CURRENT_CHAR_INDEX)) = (word_of_nat 15 :: byte)"
          by simp
        then have "m CURRENT_CHAR_INDEX = 15" by simp
        with False show False ..
      qed
      with c have "unat (m CURRENT_CHAR_INDEX) < 15" by simp
      then have "unat (m CURRENT_CHAR_INDEX + 1) \<le> 15" by (simp add: unat_succ_byte)
      with False show ?thesis by (simp add: timer4_right [OF right])
    qed
  next
    case left
    show ?thesis
    proof (cases "m CURRENT_CHAR_INDEX = 0")
      case True
      then show ?thesis by (simp add: timer4_left [OF left])
    next
      case False
      then have "unat (m CURRENT_CHAR_INDEX - 1) = unat (m CURRENT_CHAR_INDEX) - 1"
        by (rule unat_pred_byte)
      with c False show ?thesis by (simp add: timer4_left [OF left])
    qed
  next
    case other
    with c show ?thesis by (simp add: timer4_other)
  qed
next
  show "initialize_data_space m0 CURRENT_CHAR_INDEX = 0"
    by (simp add: initialize_data_space_at labels)
next
  have "composition_inv (run rest OCF3A evs m0)" by (rule composition_inv_run)
  then show "unat (run rest OCF3A evs m0 CURRENT_CHAR_INDEX) \<le> 15"
    by (simp add: composition_inv_def)
qed


theorem cursor_clamps_witness:
  "timer4 erased_flash (run erased_flash 1 (Timer1 0 # replicate 15 Timer4) zero_memory) =
     run erased_flash 1 (Timer1 0 # replicate 15 Timer4) zero_memory \<and>
   timer4 erased_flash (run erased_flash 1 [Timer1 0x200] zero_memory) =
     run erased_flash 1 [Timer1 0x200] zero_memory \<and>
   timer4 erased_flash (run erased_flash 1 [Timer1 0] zero_memory) =
     (run erased_flash 1 [Timer1 0] zero_memory)(CURRENT_CHAR_INDEX := 1) \<and>
   timer4 erased_flash (run erased_flash 1 [Timer1 0x200, Timer1 0, Timer4, Timer1 0x200] zero_memory) =
     (run erased_flash 1 [Timer1 0x200, Timer1 0, Timer4, Timer1 0x200] zero_memory)
       (CURRENT_CHAR_INDEX := 0) \<and>
   unat (timer4 erased_flash (run erased_flash 1 [Timer1 0] zero_memory) CURRENT_CHAR_INDEX) \<le> 15"
proof (intro conjI)
  define m where "m = run erased_flash 1 (Timer1 0 # replicate 15 Timer4) zero_memory"
  have "m BUTTON_IS_PRESSED \<noteq> 0" "m CURRENT_BUTTON_PRESSED = RIGHT" "m CURRENT_CHAR_INDEX = 15"
    unfolding m_def by code_simp+
  with cursor_clamps [where m = m and rest = erased_flash]
  show "timer4 erased_flash m = m" by simp
next
  define m where "m = run erased_flash 1 [Timer1 0x200] zero_memory"
  have "m BUTTON_IS_PRESSED \<noteq> 0" "m CURRENT_BUTTON_PRESSED = LEFT" "m CURRENT_CHAR_INDEX = 0"
    unfolding m_def by code_simp+
  with cursor_clamps [where m = m and rest = erased_flash]
  show "timer4 erased_flash m = m" by simp
next
  define m where "m = run erased_flash 1 [Timer1 0] zero_memory"
  have h: "m BUTTON_IS_PRESSED \<noteq> 0" "m CURRENT_BUTTON_PRESSED = RIGHT" "m CURRENT_CHAR_INDEX = 0"
    unfolding m_def by code_simp+
  with cursor_clamps [where m = m and rest = erased_flash]
  show "timer4 erased_flash m = m(CURRENT_CHAR_INDEX := 1)" by simp
  from h cursor_clamps [where m = m and rest = erased_flash]
  show "unat (timer4 erased_flash m CURRENT_CHAR_INDEX) \<le> 15" by simp
next
  define m where
    "m = run erased_flash 1 [Timer1 0x200, Timer1 0, Timer4, Timer1 0x200] zero_memory"
  have "m BUTTON_IS_PRESSED \<noteq> 0" "m CURRENT_BUTTON_PRESSED = LEFT" "m CURRENT_CHAR_INDEX = 1"
    unfolding m_def by code_simp+
  with cursor_clamps [where m = m and rest = erased_flash]
  show "timer4 erased_flash m = m(CURRENT_CHAR_INDEX := 0)" by simp
qed

text \<open>
  C4. A timer4 tick with Down pressed, at the cursor column \<open>c\<close>: when the index of the
  column is 0 the cell is set to the blank and the index stays 0; otherwise the index
  is decremented by one (without wrapping) and the cell is set to the byte that
  \<^verbatim>\<open>lpm\<close> reads from the table at the new index, which is the table entry
  \<open>AVAILABLE_CHARSET ! (idx - 1)\<close> for every index up to 37.
\<close>

theorem down_tick:
  "let c = unat (m CURRENT_CHAR_INDEX); idx = m (CURRENT_CHARSET_INDEX + c) in
     m BUTTON_IS_PRESSED \<noteq> 0 \<and> m CURRENT_BUTTON_PRESSED = DOWN \<longrightarrow>
       (idx = 0 \<longrightarrow>
          timer4 rest m = m(TOP_LINE_CONTENT + c := SPACE) \<and>
          timer4 rest m (CURRENT_CHARSET_INDEX + c) = 0) \<and>
       (idx \<noteq> 0 \<longrightarrow>
          timer4 rest m = m(CURRENT_CHARSET_INDEX + c := idx - 1,
                             TOP_LINE_CONTENT + c := lpm rest (idx - 1)) \<and>
          unat (idx - 1) = unat idx - 1) \<and>
       (idx \<noteq> 0 \<and> unat idx \<le> 37 \<longrightarrow>
          lpm rest (idx - 1) = AVAILABLE_CHARSET ! (unat idx - 1))"
proof -
  define c where "c = unat (m CURRENT_CHAR_INDEX)"
  define idx where "idx = m (CURRENT_CHARSET_INDEX + c)"
  have "(idx = 0 \<longrightarrow>
          timer4 rest m = m(TOP_LINE_CONTENT + c := SPACE) \<and>
          timer4 rest m (CURRENT_CHARSET_INDEX + c) = 0) \<and>
       (idx \<noteq> 0 \<longrightarrow>
          timer4 rest m = m(CURRENT_CHARSET_INDEX + c := idx - 1,
                             TOP_LINE_CONTENT + c := lpm rest (idx - 1)) \<and>
          unat (idx - 1) = unat idx - 1) \<and>
       (idx \<noteq> 0 \<and> unat idx \<le> 37 \<longrightarrow>
          lpm rest (idx - 1) = AVAILABLE_CHARSET ! (unat idx - 1))"
    if d: "m BUTTON_IS_PRESSED \<noteq> 0" "m CURRENT_BUTTON_PRESSED = DOWN"
  proof (intro conjI impI)
    note t = timer4_down [OF d, of rest, folded c_def, folded idx_def]
    {
      assume z: "idx = 0"
      with t show e: "timer4 rest m = m(TOP_LINE_CONTENT + c := SPACE)" by simp
      from z show "timer4 rest m (CURRENT_CHARSET_INDEX + c) = 0"
        unfolding e by (simp add: idx_def labels)
    next
      assume "idx \<noteq> 0"
      with t show "timer4 rest m = m(CURRENT_CHARSET_INDEX + c := idx - 1,
                             TOP_LINE_CONTENT + c := lpm rest (idx - 1))" by simp
    next
      assume "idx \<noteq> 0"
      then show "unat (idx - 1) = unat idx - 1" by (rule unat_pred_byte)
    next
      assume a: "idx \<noteq> 0 \<and> unat idx \<le> 37"
      then have u: "unat (idx - 1) = unat idx - 1" by (simp add: unat_pred_byte)
      from a have "unat idx \<le> 37" by (rule conjunct2)
      with u have "unat (idx - 1) < 38" by linarith
      then have "lpm rest (idx - 1) = AVAILABLE_CHARSET ! unat (idx - 1)" by (rule lpm_table)
      then show "lpm rest (idx - 1) = AVAILABLE_CHARSET ! (unat idx - 1)"
        by (simp only: u)
    }
  qed
  then show ?thesis unfolding Let_def c_def idx_def by blast
qed


theorem down_tick_witness:
  "timer4 erased_flash (run erased_flash 1 [Timer1 0x60, Timer4, Timer1 0x100] zero_memory) =
     (run erased_flash 1 [Timer1 0x60, Timer4, Timer1 0x100] zero_memory)
       (TOP_LINE_CONTENT + 0 := SPACE) \<and>
   timer4 erased_flash
       (run erased_flash 1 [Timer1 0x60, Timer4, Timer4, Timer1 0x100] zero_memory) =
     (run erased_flash 1 [Timer1 0x60, Timer4, Timer4, Timer1 0x100] zero_memory)
       (CURRENT_CHARSET_INDEX + 0 := 0, TOP_LINE_CONTENT + 0 := of_char CHR ''a'')"
proof (intro conjI)
  define m where "m = run erased_flash 1 [Timer1 0x60, Timer4, Timer1 0x100] zero_memory"
  have "m BUTTON_IS_PRESSED \<noteq> 0" "m CURRENT_BUTTON_PRESSED = DOWN"
    "unat (m CURRENT_CHAR_INDEX) = 0" "m (CURRENT_CHARSET_INDEX + 0) = 0"
    unfolding m_def by code_simp+
  with down_tick [of m erased_flash]
  show "timer4 erased_flash m = m(TOP_LINE_CONTENT + 0 := SPACE)"
    by (simp add: Let_def)
next
  define m where "m = run erased_flash 1 [Timer1 0x60, Timer4, Timer4, Timer1 0x100] zero_memory"
  have "m BUTTON_IS_PRESSED \<noteq> 0" "m CURRENT_BUTTON_PRESSED = DOWN"
    "unat (m CURRENT_CHAR_INDEX) = 0" "m (CURRENT_CHARSET_INDEX + 0) = 1"
    unfolding m_def by code_simp+
  with down_tick [of m erased_flash]
  show "timer4 erased_flash m =
      m(CURRENT_CHARSET_INDEX + 0 := 0, TOP_LINE_CONTENT + 0 := of_char CHR ''a'')"
    by (simp add: Let_def AVAILABLE_CHARSET_first)
qed

text \<open>
  C1 as stated fails. After Up has been held for 37 ticks from start-up, column 0 holds
  \<open>!\<close> at index 36, the last palette index. The 38th tick does not leave the state
  unchanged: it moves the index to 37 and stores the zero byte in the cell.
\<close>

theorem up_at_last_index_counterexample:
  "up_held_37_ticks BUTTON_IS_PRESSED = 1 \<and>
   up_held_37_ticks CURRENT_BUTTON_PRESSED = UP \<and>
   up_held_37_ticks CURRENT_CHAR_INDEX = 0 \<and>
   up_held_37_ticks CURRENT_CHARSET_INDEX = 36 \<and>
   up_held_37_ticks TOP_LINE_CONTENT = of_char CHR ''!'' \<and>
   timer4 erased_flash up_held_37_ticks CURRENT_CHARSET_INDEX = 37 \<and>
   timer4 erased_flash up_held_37_ticks TOP_LINE_CONTENT = 0 \<and>
   timer4 erased_flash up_held_37_ticks \<noteq> up_held_37_ticks"
proof -
  note e = up_held_37_ticks_eq
  have p: "up_held_37_ticks BUTTON_IS_PRESSED = 1"
    and u: "up_held_37_ticks CURRENT_BUTTON_PRESSED = UP"
    and c: "up_held_37_ticks CURRENT_CHAR_INDEX = 0"
    and i: "up_held_37_ticks CURRENT_CHARSET_INDEX = 36"
    and t: "up_held_37_ticks TOP_LINE_CONTENT = of_char CHR ''!''"
    by (simp_all add: e initialize_data_space_at labels)
  from p have p': "up_held_37_ticks BUTTON_IS_PRESSED \<noteq> 0" by simp
  have l: "lpm erased_flash 37 = 0"
    using lpm_table [of 37 erased_flash] AVAILABLE_CHARSET_zero [of 37] by simp
  have t4: "timer4 erased_flash up_held_37_ticks =
      up_held_37_ticks(CURRENT_CHARSET_INDEX := 37, TOP_LINE_CONTENT := 0)"
    using c i t l by (simp add: timer4_up [OF p' u] SPACE_def)
  have i': "timer4 erased_flash up_held_37_ticks CURRENT_CHARSET_INDEX = 37"
    and t': "timer4 erased_flash up_held_37_ticks TOP_LINE_CONTENT = 0"
    by (simp_all add: t4 labels)
  from i i' have "timer4 erased_flash up_held_37_ticks CURRENT_CHARSET_INDEX \<noteq>
      up_held_37_ticks CURRENT_CHARSET_INDEX" by simp
  then have "timer4 erased_flash up_held_37_ticks \<noteq> up_held_37_ticks" by metis
  with p u c i t i' t' show ?thesis by blast
qed

text \<open>
  C1 (as amended). The clamp of the Up branch is not at the last palette index: timer4
  tests the cell for the zero byte, which is the terminator of the table at index 37. In
  every state reached by a run, a timer4 tick with Up pressed, at the cursor column \<open>c\<close>:
  when the cell is the zero byte (then the index is 37) the memory is unchanged; when
  the cell is the blank, the index is set to 0 and the cell to the first character of
  the table; otherwise the index is at most 36, it is incremented by one and the cell
  is set to the table entry at the new index. In particular at index 36 (the cell
  holds \<open>!\<close>) the tick moves the index to 37 and stores the zero byte in the cell.
\<close>

theorem up_tick:
  "let m = run rest OCF3A evs m0; c = unat (m CURRENT_CHAR_INDEX);
       cell = m (TOP_LINE_CONTENT + c); idx = m (CURRENT_CHARSET_INDEX + c) in
     m BUTTON_IS_PRESSED \<noteq> 0 \<and> m CURRENT_BUTTON_PRESSED = UP \<longrightarrow>
       (cell = 0 \<longrightarrow> unat idx = 37 \<and> timer4 rest m = m) \<and>
       (cell = SPACE \<longrightarrow>
          timer4 rest m = m(CURRENT_CHARSET_INDEX + c := 0,
                             TOP_LINE_CONTENT + c := AVAILABLE_CHARSET ! 0)) \<and>
       (cell \<noteq> 0 \<and> cell \<noteq> SPACE \<longrightarrow>
          unat idx \<le> 36 \<and> cell = AVAILABLE_CHARSET ! unat idx \<and>
          timer4 rest m = m(CURRENT_CHARSET_INDEX + c := idx + 1,
                             TOP_LINE_CONTENT + c := AVAILABLE_CHARSET ! (unat idx + 1))) \<and>
       (cell \<noteq> SPACE \<and> unat idx = 36 \<longrightarrow>
          cell = of_char CHR ''!'' \<and>
          timer4 rest m = m(CURRENT_CHARSET_INDEX + c := 37, TOP_LINE_CONTENT + c := 0))"
proof -
  define m where "m = run rest OCF3A evs m0"
  define c where "c = unat (m CURRENT_CHAR_INDEX)"
  define cell where "cell = m (TOP_LINE_CONTENT + c)"
  define idx where "idx = m (CURRENT_CHARSET_INDEX + c)"
  have inv: "composition_inv m" unfolding m_def by (rule composition_inv_run)
  note col = composition_inv_column_cases [OF inv, folded c_def, folded cell_def idx_def]
  have "(cell = 0 \<longrightarrow> unat idx = 37 \<and> timer4 rest m = m) \<and>
       (cell = SPACE \<longrightarrow>
          timer4 rest m = m(CURRENT_CHARSET_INDEX + c := 0,
                             TOP_LINE_CONTENT + c := AVAILABLE_CHARSET ! 0)) \<and>
       (cell \<noteq> 0 \<and> cell \<noteq> SPACE \<longrightarrow>
          unat idx \<le> 36 \<and> cell = AVAILABLE_CHARSET ! unat idx \<and>
          timer4 rest m = m(CURRENT_CHARSET_INDEX + c := idx + 1,
                             TOP_LINE_CONTENT + c := AVAILABLE_CHARSET ! (unat idx + 1))) \<and>
       (cell \<noteq> SPACE \<and> unat idx = 36 \<longrightarrow>
          cell = of_char CHR ''!'' \<and>
          timer4 rest m = m(CURRENT_CHARSET_INDEX + c := 37, TOP_LINE_CONTENT + c := 0))"
    if u: "m BUTTON_IS_PRESSED \<noteq> 0" "m CURRENT_BUTTON_PRESSED = UP"
  proof -
    note t = timer4_up_inv [OF inv u, of rest, folded c_def, folded cell_def idx_def]
    have 1: "cell = 0 \<longrightarrow> unat idx = 37 \<and> timer4 rest m = m"
      using t(1) by blast
    have 2: "cell = SPACE \<longrightarrow>
          timer4 rest m = m(CURRENT_CHARSET_INDEX + c := 0,
                             TOP_LINE_CONTENT + c := AVAILABLE_CHARSET ! 0)"
      using t(2) by blast
    have 3: "unat idx \<le> 36 \<and> cell = AVAILABLE_CHARSET ! unat idx \<and>
          timer4 rest m = m(CURRENT_CHARSET_INDEX + c := idx + 1,
                             TOP_LINE_CONTENT + c := AVAILABLE_CHARSET ! (unat idx + 1))"
      if n: "cell \<noteq> 0" "cell \<noteq> SPACE"
    proof -
      from t(3) [OF n] have "unat idx < 37" and
        e: "timer4 rest m = m(CURRENT_CHARSET_INDEX + c := idx + 1,
                             TOP_LINE_CONTENT + c := AVAILABLE_CHARSET ! (unat idx + 1))"
        by simp_all
      moreover from col n have "cell = AVAILABLE_CHARSET ! unat idx" by blast
      ultimately show ?thesis by simp
    qed
    have 4: "cell = of_char CHR ''!'' \<and>
          timer4 rest m = m(CURRENT_CHARSET_INDEX + c := 37, TOP_LINE_CONTENT + c := 0)"
      if n: "cell \<noteq> SPACE" "unat idx = 36"
    proof -
      from col n have tab: "cell = AVAILABLE_CHARSET ! 36" by auto
      then have bang: "cell = of_char CHR ''!''" by (simp only: AVAILABLE_CHARSET_last)
      then have nz: "cell \<noteq> 0" by simp
      have "word_of_nat (unat idx) = (word_of_nat 36 :: byte)" using n(2) by simp
      then have i: "idx = 36" by simp
      have "AVAILABLE_CHARSET ! 37 = 0" using AVAILABLE_CHARSET_zero [of 37] by simp
      with 3 [OF nz n(1)] bang i show ?thesis by simp
    qed
    from 1 2 3 4 show ?thesis by blast
  qed
  then show ?thesis unfolding Let_def m_def c_def cell_def idx_def by blast
qed


theorem up_tick_witness:
  "timer4 erased_flash (run erased_flash 1 [Timer1 0x60] zero_memory) =
     (run erased_flash 1 [Timer1 0x60] zero_memory)
       (CURRENT_CHARSET_INDEX := 0, TOP_LINE_CONTENT := of_char CHR ''a'') \<and>
   timer4 erased_flash up_held_37_ticks =
     up_held_37_ticks(CURRENT_CHARSET_INDEX := 37, TOP_LINE_CONTENT := 0) \<and>
   timer4 erased_flash (run erased_flash 1 (Timer1 0x60 # replicate 38 Timer4) zero_memory) =
     run erased_flash 1 (Timer1 0x60 # replicate 38 Timer4) zero_memory"
proof (intro conjI)
  define m where "m = run erased_flash 1 [Timer1 0x60] zero_memory"
  have "m BUTTON_IS_PRESSED \<noteq> 0" and "m CURRENT_BUTTON_PRESSED = UP"
    and "m CURRENT_CHAR_INDEX = 0" and "m TOP_LINE_CONTENT = SPACE"
    unfolding m_def by code_simp+
  with up_tick [of erased_flash 1 "[Timer1 0x60]" zero_memory, folded m_def]
  show "timer4 erased_flash m =
     m(CURRENT_CHARSET_INDEX := 0, TOP_LINE_CONTENT := of_char CHR ''a'')"
    by (simp add: Let_def AVAILABLE_CHARSET_first)
next
  note e = up_held_37_ticks_eq
  have "up_held_37_ticks BUTTON_IS_PRESSED \<noteq> 0"
    and "up_held_37_ticks CURRENT_BUTTON_PRESSED = UP"
    and "up_held_37_ticks CURRENT_CHAR_INDEX = 0"
    and "up_held_37_ticks CURRENT_CHARSET_INDEX = 36"
    and "up_held_37_ticks TOP_LINE_CONTENT = of_char CHR ''!''"
    by (simp_all add: e initialize_data_space_at labels)
  with up_tick [of erased_flash 1 "Timer1 0x60 # replicate 37 Timer4" zero_memory,
      folded up_held_37_ticks_def]
  show "timer4 erased_flash up_held_37_ticks =
     up_held_37_ticks(CURRENT_CHARSET_INDEX := 37, TOP_LINE_CONTENT := 0)"
    by (simp add: Let_def SPACE_def) metis
next
  define m where "m = run erased_flash 1 (Timer1 0x60 # replicate 38 Timer4) zero_memory"
  have "replicate 38 Timer4 = replicate (Suc 37) Timer4" by simp
  then have e: "m = (initialize_data_space zero_memory)
       (BUTTON_IS_PRESSED := 1, CURRENT_BUTTON_PRESSED := UP,
        CURRENT_CHARSET_INDEX := of_nat 37, TOP_LINE_CONTENT := AVAILABLE_CHARSET ! 37)"
    unfolding m_def using up_held [of 37 erased_flash 1 zero_memory] by (simp only:)
  have z: "AVAILABLE_CHARSET ! 37 = 0" using AVAILABLE_CHARSET_zero [of 37] by simp
  have "m BUTTON_IS_PRESSED \<noteq> 0" and "m CURRENT_BUTTON_PRESSED = UP"
    and "m CURRENT_CHAR_INDEX = 0" and "m TOP_LINE_CONTENT = 0"
    by (simp_all add: e z initialize_data_space_at labels)
  with up_tick [of erased_flash 1 "Timer1 0x60 # replicate 38 Timer4" zero_memory, folded m_def]
  show "timer4 erased_flash m = m"
    by (simp add: Let_def)
qed

text \<open>
  C8. In every state reached by a run, when the cell at the cursor column is blank, an
  Up tick (timer1 with an ADC result in the Up range, then timer4) followed by a Down
  tick (timer1 with a result in the Down range, then timer4) puts the first character
  of the table in the cell and then returns the column to the blank with index 0: the
  memory after the two ticks is the memory before them except for the button bytes
  written by timer1.
\<close>

theorem up_then_down_from_blank:
  "let m = run rest OCF3A evs m0; c = unat (m CURRENT_CHAR_INDEX);
       m1 = timer4 rest (timer1 up m);
       m2 = timer4 rest (timer1 down m1) in
     m (TOP_LINE_CONTENT + c) = SPACE \<and>
     0x032 \<le> up \<and> up < 0x0b0 \<and> 0x0b0 \<le> down \<and> down < 0x160 \<longrightarrow>
       m (CURRENT_CHARSET_INDEX + c) = 0 \<and>
       m1 (TOP_LINE_CONTENT + c) = AVAILABLE_CHARSET ! 0 \<and> m1 (CURRENT_CHARSET_INDEX + c) = 0 \<and>
       m2 (TOP_LINE_CONTENT + c) = SPACE \<and> m2 (CURRENT_CHARSET_INDEX + c) = 0 \<and>
       m2 = m(BUTTON_IS_PRESSED := 1, CURRENT_BUTTON_PRESSED := DOWN)"
proof -
  define m where "m = run rest OCF3A evs m0"
  define c where "c = unat (m CURRENT_CHAR_INDEX)"
  define m1 where "m1 = timer4 rest (timer1 up m)"
  define m2 where "m2 = timer4 rest (timer1 down m1)"
  have inv: "composition_inv m" unfolding m_def by (rule composition_inv_run)
  then have c: "c < 16" by (simp add: composition_inv_def c_def)
  have "m (CURRENT_CHARSET_INDEX + c) = 0 \<and>
       m1 (TOP_LINE_CONTENT + c) = AVAILABLE_CHARSET ! 0 \<and> m1 (CURRENT_CHARSET_INDEX + c) = 0 \<and>
       m2 (TOP_LINE_CONTENT + c) = SPACE \<and> m2 (CURRENT_CHARSET_INDEX + c) = 0 \<and>
       m2 = m(BUTTON_IS_PRESSED := 1, CURRENT_BUTTON_PRESSED := DOWN)"
    if b: "m (TOP_LINE_CONTENT + c) = SPACE"
      and up: "0x032 \<le> up" "up < 0x0b0" and down: "0x0b0 \<le> down" "down < 0x160"
  proof -
    have i0: "m (CURRENT_CHARSET_INDEX + c) = 0"
      using composition_inv_column_cases [OF inv, folded c_def] b
        AVAILABLE_CHARSET_not_SPACE [of "unat (m (CURRENT_CHARSET_INDEX + c))"]
      by auto
    define u where "u = timer1 up m"
    have u: "u = m(BUTTON_IS_PRESSED := 1, CURRENT_BUTTON_PRESSED := UP)"
      using up unfolding u_def
      by (simp add: timer1_cascade BUTTON_RIGHT_ADC_def BUTTON_UP_ADC_def not_less [symmetric])
    have uc: "unat (u CURRENT_CHAR_INDEX) = c" by (simp add: u c_def labels)
    have "composition_inv u" unfolding u_def using inv by (rule composition_inv_timer1)
    from timer4_up_inv(2) [OF this, of rest, unfolded uc] b c
    have m1: "m1 = u(CURRENT_CHARSET_INDEX + c := 0,
                    TOP_LINE_CONTENT + c := AVAILABLE_CHARSET ! 0)"
      unfolding m1_def u_def [symmetric] by (simp add: u labels)
    define d where "d = timer1 down m1"
    have d: "d = m1(BUTTON_IS_PRESSED := 1, CURRENT_BUTTON_PRESSED := DOWN)"
      using down adc_threshold_order(1) [of down] unfolding d_def
      by (auto simp add: timer1_cascade BUTTON_RIGHT_ADC_def BUTTON_UP_ADC_def BUTTON_DOWN_ADC_def
          not_less [symmetric])
    have dc: "unat (d CURRENT_CHAR_INDEX) = c" using c by (simp add: d m1 u c_def labels)
    have di: "d (CURRENT_CHARSET_INDEX + c) = 0" using c by (simp add: d m1 u labels)
    have "d BUTTON_IS_PRESSED \<noteq> 0" and "d CURRENT_BUTTON_PRESSED = DOWN"
      by (simp_all add: d labels)
    from timer4_down [OF this, of rest, unfolded dc] di
    have m2: "m2 = d(TOP_LINE_CONTENT + c := SPACE)"
      unfolding m2_def d_def [symmetric] by simp
    have "m2 = m(BUTTON_IS_PRESSED := 1, CURRENT_BUTTON_PRESSED := DOWN)"
      using c b i0 by (auto simp add: fun_eq_iff m2 d m1 u labels)
    moreover have "m1 (TOP_LINE_CONTENT + c) = AVAILABLE_CHARSET ! 0"
      and "m1 (CURRENT_CHARSET_INDEX + c) = 0"
      by (simp_all add: m1 labels)
    moreover have "m2 (TOP_LINE_CONTENT + c) = SPACE" and "m2 (CURRENT_CHARSET_INDEX + c) = 0"
      using di by (simp_all add: m2 labels)
    ultimately show ?thesis using i0 by blast
  qed
  then show ?thesis unfolding Let_def m_def c_def m1_def m2_def by blast
qed


theorem up_then_down_from_blank_witness:
  "timer4 erased_flash (timer1 0x100 (timer4 erased_flash (timer1 0x60
       (run erased_flash 1 [Timer1 0, Timer4] zero_memory)))) =
     (run erased_flash 1 [Timer1 0, Timer4] zero_memory)
       (BUTTON_IS_PRESSED := 1, CURRENT_BUTTON_PRESSED := DOWN) \<and>
   timer4 erased_flash (timer1 0x60 (run erased_flash 1 [Timer1 0, Timer4] zero_memory))
     (TOP_LINE_CONTENT + 1) = of_char CHR ''a''"
proof -
  define m where "m = run erased_flash 1 [Timer1 0, Timer4] zero_memory"
  have c: "unat (m CURRENT_CHAR_INDEX) = 1" unfolding m_def by code_simp
  have b: "m (TOP_LINE_CONTENT + 1) = SPACE" unfolding m_def by code_simp
  have r: "(0x032 :: 16 word) \<le> 0x60 \<and> (0x60 :: 16 word) < 0x0b0 \<and>
           (0x0b0 :: 16 word) \<le> 0x100 \<and> (0x100 :: 16 word) < 0x160"
    by simp
  note t = up_then_down_from_blank [of erased_flash 1 "[Timer1 0, Timer4]" zero_memory
      "0x60" "0x100", folded m_def, unfolded Let_def c]
  from t b r have "timer4 erased_flash (timer1 0x100 (timer4 erased_flash (timer1 0x60 m))) =
      m(BUTTON_IS_PRESSED := 1, CURRENT_BUTTON_PRESSED := DOWN)"
    and "timer4 erased_flash (timer1 0x60 m) (TOP_LINE_CONTENT + 1) = AVAILABLE_CHARSET ! 0"
    by blast+
  then show ?thesis unfolding m_def by (simp only: AVAILABLE_CHARSET_first)
qed

section \<open>Claims about the display refresh\<close>

text \<open>
  C10. A pass of the polling loop that finds the timer 3 flag set starts with the call
  \<open>lcd_gotoxy(1, 15)\<close> followed by \<open>lcd_putchar\<close> of the asterisk when
  \<open>BUTTON_IS_PRESSED\<close> is nonzero and of the dash when it is zero, whatever the rest of
  the memory; a pass that finds the flag clear does nothing.
\<close>

theorem status_marker_first:
  "(bit TIFR3 OCF3A \<longrightarrow>
      take 2 (snd (polling_loop OCF3A TIFR3 m)) =
        [Lcd_gotoxy 1 15, Lcd_putchar (if m BUTTON_IS_PRESSED = 0 then DASH else ASTERISK)]) \<and>
   (\<not> bit TIFR3 OCF3A \<longrightarrow> polling_loop OCF3A TIFR3 m = (m, []))"
proof (intro conjI impI)
  assume b: "bit TIFR3 OCF3A"
  show "take 2 (snd (polling_loop OCF3A TIFR3 m)) =
        [Lcd_gotoxy 1 15, Lcd_putchar (if m BUTTON_IS_PRESSED = 0 then DASH else ASTERISK)]"
    by (simp add: polling_loop_serviced [OF b])
next
  assume "\<not> bit TIFR3 OCF3A"
  then show "polling_loop OCF3A TIFR3 m = (m, [])"
    by (simp add: polling_loop_def)
qed


theorem status_marker_first_witness:
  "take 2 (snd (polling_loop 1 2 (run erased_flash 1 [Timer1 0x60] zero_memory))) =
     [Lcd_gotoxy 1 15, Lcd_putchar ASTERISK] \<and>
   take 2 (snd (polling_loop 1 2 released_after_right)) = [Lcd_gotoxy 1 15, Lcd_putchar DASH] \<and>
   polling_loop 1 0 released_after_right = (released_after_right, [])"
proof (intro conjI)
  have b: "bit (2 :: byte) 1" by simp
  have p: "run erased_flash 1 [Timer1 0x60] zero_memory BUTTON_IS_PRESSED \<noteq> 0"
    by code_simp
  from status_marker_first [of 2 1 "run erased_flash 1 [Timer1 0x60] zero_memory"] b p
  show "take 2 (snd (polling_loop 1 2 (run erased_flash 1 [Timer1 0x60] zero_memory))) =
     [Lcd_gotoxy 1 15, Lcd_putchar ASTERISK]"
    by simp
  have q: "released_after_right BUTTON_IS_PRESSED = 0" by code_simp
  from status_marker_first [of 2 1 released_after_right] b q
  show "take 2 (snd (polling_loop 1 2 released_after_right)) = [Lcd_gotoxy 1 15, Lcd_putchar DASH]"
    by simp
  have n: "\<not> bit (0 :: byte) 1" by simp
  from status_marker_first [of 0 1 released_after_right] n
  show "polling_loop 1 0 released_after_right = (released_after_right, [])"
    by simp
qed

text \<open>
  C6 as stated fails. After Right has been pressed and released the cell at the cursor
  is blank, the current button differs from the last one and \<open>BUTTON_IS_PRESSED\<close> is 0.
  A serviced pass then writes the blank at row 0, column 0, and does not run the
  indicator: it writes no glyph and leaves \<open>LAST_BUTTON_PRESSED\<close> as it was.
\<close>

theorem refresh_draws_blank_counterexample:
  "released_after_right (TOP_LINE_CONTENT + unat (released_after_right CURRENT_CHAR_INDEX)) = SPACE \<and>
   snd (polling_loop 1 2 released_after_right) =
     [Lcd_gotoxy 1 15, Lcd_putchar DASH, Lcd_gotoxy 0 0, Lcd_putchar SPACE] \<and>
   released_after_right CURRENT_BUTTON_PRESSED = RIGHT \<and>
   released_after_right LAST_BUTTON_PRESSED = 0 \<and>
   fst (polling_loop 1 2 released_after_right) LAST_BUTTON_PRESSED = 0"
  by (intro conjI; code_simp)

text \<open>
  C6 (as amended). A serviced pass writes the status marker; then, only when
  \<open>BUTTON_IS_PRESSED\<close> is nonzero, it runs the display indicator \<open>test_which_button\<close>;
  then, on every serviced pass, it renders the cell at the cursor at row 0 and the
  cursor's column. The cell is skipped only when it is the zero byte; every other byte,
  the blank included, is written to the display.
\<close>

theorem refresh_tick_renders:
  "bit TIFR3 OCF3A \<longrightarrow>
     polling_loop OCF3A TIFR3 m =
       (let cell = m (TOP_LINE_CONTENT + unat (m CURRENT_CHAR_INDEX));
            marker = [Lcd_gotoxy 1 15,
                      Lcd_putchar (if m BUTTON_IS_PRESSED = 0 then DASH else ASTERISK)];
            indicator = (if m BUTTON_IS_PRESSED = 0 then (m, []) else test_which_button m);
            render = (if cell = 0 then []
                      else [Lcd_gotoxy 0 (m CURRENT_CHAR_INDEX), Lcd_putchar cell])
        in (fst indicator, marker @ snd indicator @ render))"
proof
  assume b: "bit TIFR3 OCF3A"
  show "polling_loop OCF3A TIFR3 m =
       (let cell = m (TOP_LINE_CONTENT + unat (m CURRENT_CHAR_INDEX));
            marker = [Lcd_gotoxy 1 15,
                      Lcd_putchar (if m BUTTON_IS_PRESSED = 0 then DASH else ASTERISK)];
            indicator = (if m BUTTON_IS_PRESSED = 0 then (m, []) else test_which_button m);
            render = (if cell = 0 then []
                      else [Lcd_gotoxy 0 (m CURRENT_CHAR_INDEX), Lcd_putchar cell])
        in (fst indicator, marker @ snd indicator @ render))"
    by (simp add: polling_loop_serviced [OF b] Let_def set_counter_def)
qed


theorem refresh_tick_renders_witness:
  "polling_loop 1 2 (run erased_flash 1 [Timer1 0x60, Timer4] zero_memory) =
     (fst (test_which_button (run erased_flash 1 [Timer1 0x60, Timer4] zero_memory)),
      [Lcd_gotoxy 1 15, Lcd_putchar ASTERISK] @
      snd (test_which_button (run erased_flash 1 [Timer1 0x60, Timer4] zero_memory)) @
      [Lcd_gotoxy 0 0, Lcd_putchar (of_char CHR ''a'')]) \<and>
   polling_loop 1 2 (run erased_flash 1 [] zero_memory) =
     (run erased_flash 1 [] zero_memory,
      [Lcd_gotoxy 1 15, Lcd_putchar DASH, Lcd_gotoxy 0 0, Lcd_putchar SPACE])"
proof (intro conjI)
  have b: "bit (2 :: byte) 1" by simp
  define m where "m = run erased_flash 1 [Timer1 0x60, Timer4] zero_memory"
  have "m BUTTON_IS_PRESSED \<noteq> 0" "m CURRENT_CHAR_INDEX = 0"
    "m (TOP_LINE_CONTENT + 0) = of_char CHR ''a''"
    unfolding m_def by code_simp+
  with refresh_tick_renders [of 2 1 m] b
  show "polling_loop 1 2 m =
     (fst (test_which_button m),
      [Lcd_gotoxy 1 15, Lcd_putchar ASTERISK] @ snd (test_which_button m) @
      [Lcd_gotoxy 0 0, Lcd_putchar (of_char CHR ''a'')])"
    by (simp add: Let_def)
next
  have b: "bit (2 :: byte) 1" by simp
  define m where "m = run erased_flash 1 [] zero_memory"
  have "m BUTTON_IS_PRESSED = 0" "m CURRENT_CHAR_INDEX = 0"
    "m (TOP_LINE_CONTENT + 0) = SPACE"
    unfolding m_def by code_simp+
  with refresh_tick_renders [of 2 1 m] b
  show "polling_loop 1 2 m =
     (m, [Lcd_gotoxy 1 15, Lcd_putchar DASH, Lcd_gotoxy 0 0, Lcd_putchar SPACE])"
    by (simp add: Let_def SPACE_def)
qed




end
